theory Spec2Isabelle
  imports Complex_Main "HOL-Library.Multiset"
begin

section \<open>Data model\<close>

text \<open>
  Python exceptions as values. Each constructor stands for an exception class (and its
  subclasses); the string is the message that \<^verbatim>\<open>str(e)\<close> prints.
  \<open>AddressNotFound\<close> is \<^verbatim>\<open>tronpy.exceptions.AddressNotFound\<close>, \<open>ConnectionError\<close> and
  \<open>HTTPError\<close> are the two classes of \<^verbatim>\<open>requests.exceptions\<close> that the retry policy and
  the endpoint name, \<open>RetryError\<close> is \<^verbatim>\<open>tenacity.RetryError\<close> (it wraps the exception of the
  last attempt), \<open>HTTPException\<close> is FastAPI's, with status code and detail,
  \<open>RequestValidationError\<close> is FastAPI's rejection of query parameters (the names of the
  offending parameters), and \<open>OtherException\<close> is any other class.
\<close>

datatype exn =
    AddressNotFound string
  | ConnectionError string
  | HTTPError string
  | ValueError string
  | KeyError string
  | RetryError exn
  | HTTPException nat string
  | RequestValidationError "string list"
  | OtherException string

type_synonym decimal = rat

text \<open>The dictionary \<^verbatim>\<open>{"bandwidth": .., "energy": .., "balance": ..}\<close> of \<^verbatim>\<open>get_address_info\<close>.\<close>

record info =
  bandwidth :: int
  energy :: int
  balance :: decimal

text \<open>The response of \<^verbatim>\<open>POST /address_info\<close>: the same triple with the address.\<close>

record address_response = info +
  address :: string

text \<open>
  A row of the table \<^verbatim>\<open>tron_address_info\<close> (models.py): the store adds the primary key and
  the timestamp (\<^verbatim>\<open>default=datetime.utcnow\<close>) on insert.
\<close>

record TronAddressInfo = address_response +
  row_id :: nat
  timestamp :: nat

datatype level = INFO | WARNING | ERROR

text \<open>
  Modelled from the spec: the implementation of \<^verbatim>\<open>cachetools.TTLCache\<close> is not part of the
  sources (main.py only constructs \<^verbatim>\<open>TTLCache(maxsize=100, ttl=300)\<close>). The cache is the
  list of its entries \<open>(key, value, expires)\<close>, least recently used first; an entry is
  time-bounded (it expires \<open>ttl\<close> after it was set) and the cache is size-bounded.
\<close>

type_synonym ('k, 'v) ttl_cache = "('k \<times> 'v \<times> nat) list"

text \<open>
  The remote ledger and the database server are the environment. The outcome of the \<open>n\<close>-th
  call of a client method for an address is given by a script, so that an endpoint may
  fail a number of times and then answer; \<open>db_fault\<close> says which database round trips fail.
  \<^verbatim>\<open>get_account\<close>'s result is discarded by its only caller, so it is \<open>unit\<close>; the resource
  dictionary maps field names to integers. Two choices of the store are the environment's
  too: \<open>as_float\<close> is the value that the \<^verbatim>\<open>Float\<close> column \<^verbatim>\<open>balance\<close> (models.py, line 17) holds
  for a decimal, and \<open>order_by\<close> is the order in which the store returns the rows for
  \<^verbatim>\<open>ORDER BY timestamp DESC\<close> (main.py, line 129, names no second key, so the order of rows
  with equal timestamps is the store's).
\<close>

record env =
  get_account :: "nat \<Rightarrow> string \<Rightarrow> exn + unit"
  get_account_resource :: "nat \<Rightarrow> string \<Rightarrow> exn + (string \<rightharpoonup> int)"
  get_account_balance :: "nat \<Rightarrow> string \<Rightarrow> exn + decimal"
  db_fault :: "nat \<Rightarrow> exn option"
  as_float :: "decimal \<Rightarrow> decimal"
  order_by :: "TronAddressInfo list \<Rightarrow> TronAddressInfo list"

text \<open>
  The process state: the clock, how many times each remote method and the database have
  been called, the delays slept by the retry policy, the log, the module-level \<^verbatim>\<open>cache\<close> of
  main.py and the committed rows of the table, in insertion order.
\<close>

record world =
  now :: nat
  account_calls :: nat
  resource_calls :: nat
  balance_calls :: nat
  db_calls :: nat
  sleeps :: "nat list"
  logs :: "(level \<times> string) list"
  cache :: "(string, info) ttl_cache"
  table :: "TronAddressInfo list"

section \<open>Logging and rendering\<close>

definition digit :: "nat \<Rightarrow> char" where
  "digit d = (''0123456789'' ! d)"

function str_nat :: "nat \<Rightarrow> string" where
  "str_nat n = (if n < 10 then [digit n] else str_nat (n div 10) @ [digit (n mod 10)])"
  by pat_completeness auto
termination
  by (relation "measure (\<lambda>n. n)") auto

declare str_nat.simps [simp del]

text \<open>The name of the exception's class, as \<^verbatim>\<open>type(e).__name__\<close> prints it.\<close>

fun class_name :: "exn \<Rightarrow> string" where
  "class_name (AddressNotFound m) = ''AddressNotFound''"
| "class_name (ConnectionError m) = ''ConnectionError''"
| "class_name (HTTPError m) = ''HTTPError''"
| "class_name (ValueError m) = ''ValueError''"
| "class_name (KeyError k) = ''KeyError''"
| "class_name (RetryError e) = ''RetryError''"
| "class_name (HTTPException s d) = ''HTTPException''"
| "class_name (RequestValidationError ps) = ''RequestValidationError''"
| "class_name (OtherException m) = ''Exception''"

text \<open>
  \<^verbatim>\<open>str(e)\<close>. A \<^verbatim>\<open>RetryError\<close> prints the future of its last attempt, which names the class of
  the wrapped exception but not its message (the object's address, which Python prints
  too, is left out); a \<^verbatim>\<open>KeyError\<close> prints its key quoted; an \<^verbatim>\<open>HTTPException\<close> prints status
  and detail.
\<close>

fun str :: "exn \<Rightarrow> string" where
  "str (AddressNotFound m) = m"
| "str (ConnectionError m) = m"
| "str (HTTPError m) = m"
| "str (ValueError m) = m"
| "str (KeyError k) = [CHR 0x27] @ k @ [CHR 0x27]"
| "str (RetryError e) = ''RetryError[<Future state=finished raised '' @ class_name e @ ''>]''"
| "str (HTTPException s d) = str_nat s @ '': '' @ d"
| "str (RequestValidationError ps) = concat ps"
| "str (OtherException m) = m"

definition str_int :: "int \<Rightarrow> string" where
  "str_int i = (if i < 0 then ''-'' @ str_nat (nat (- i)) else str_nat (nat i))"

definition logger :: "level \<Rightarrow> string \<Rightarrow> world \<Rightarrow> world" where
  "logger l m w = w\<lparr>logs := logs w @ [(l, m)]\<rparr>"

text \<open>\<^verbatim>\<open>asyncio.sleep(d)\<close>: the clock moves on by \<open>d\<close>; the delay is recorded.\<close>

definition asyncio_sleep :: "nat \<Rightarrow> world \<Rightarrow> world" where
  "asyncio_sleep d w = w\<lparr>now := now w + d, sleeps := sleeps w @ [d]\<rparr>"

section \<open>The retry decorator (tron\_service.py, lines 23-28 and 44-49)\<close>

text \<open>
  The \<^verbatim>\<open>tenacity\<close> library is not part of the sources, only the decorator's arguments
  are; the loop follows the library's documented behaviour for these arguments.
  \<^verbatim>\<open>stop_after_attempt(3)\<close> stops once the attempt number has reached 3;
  \<^verbatim>\<open>wait_exponential(multiplier=1, min=1, max=10)\<close> waits
  \<open>multiplier * 2 ^ (attempt - 1)\<close> clamped to \<open>[min, max]\<close> after the failed attempt;
  \<^verbatim>\<open>retry_if_exception_type((ConnectionError, HTTPError))\<close> retries those two classes only
  (\<open>network_error\<close>, the same tuple of classes that the endpoint's \<^verbatim>\<open>except\<close> clause names).
  The decorator is not given \<^verbatim>\<open>reraise=True\<close>, so when the attempts are used up the
  library raises its own \<^verbatim>\<open>RetryError\<close> around the last exception.
\<close>

definition stop_after_attempt :: "nat \<Rightarrow> nat \<Rightarrow> bool" where
  "stop_after_attempt max_attempt_number attempt_number \<longleftrightarrow> max_attempt_number \<le> attempt_number"

definition wait_exponential :: "nat \<Rightarrow> nat \<Rightarrow> nat \<Rightarrow> nat \<Rightarrow> nat" where
  "wait_exponential multiplier mn mx attempt_number =
     max (max 0 mn) (min (multiplier * 2 ^ (attempt_number - 1)) mx)"

fun network_error :: "exn \<Rightarrow> bool" where
  "network_error (ConnectionError m) = True"
| "network_error (HTTPError m) = True"
| "network_error e = False"

text \<open>\<^verbatim>\<open>before_sleep\<close> logs the number of the attempt that failed, then the loop sleeps.\<close>

definition before_sleep :: "string \<Rightarrow> nat \<Rightarrow> world \<Rightarrow> world" where
  "before_sleep name attempt_number w =
     logger INFO (''Retrying '' @ name @ '': attempt '' @ str_nat attempt_number) w"

definition pause :: "string \<Rightarrow> nat \<Rightarrow> world \<Rightarrow> world" where
  "pause name attempt_number w =
     asyncio_sleep (wait_exponential 1 1 10 attempt_number) (before_sleep name attempt_number w)"

function retry_loop ::
  "nat \<Rightarrow> string \<Rightarrow> (world \<Rightarrow> (exn + 'a) \<times> world) \<Rightarrow> nat \<Rightarrow> world \<Rightarrow> (exn + 'a) \<times> world" where
  "retry_loop max_attempts name fn attempt_number w =
     (case fn w of
        (Inr result, w1) \<Rightarrow> (Inr result, w1)
      | (Inl e, w1) \<Rightarrow>
          if \<not> network_error e then (Inl e, w1)
          else if stop_after_attempt max_attempts attempt_number then (Inl (RetryError e), w1)
          else retry_loop max_attempts name fn (attempt_number + 1)
                 (pause name attempt_number w1))"
  by pat_completeness auto
termination
  by (relation "measure (\<lambda>(mx, name, fn, n, w). mx - n)")
     (auto simp: stop_after_attempt_def)

declare retry_loop.simps [simp del]

text \<open>The decorated function: the first attempt has number 1.\<close>

definition retry :: "string \<Rightarrow> (world \<Rightarrow> (exn + 'a) \<times> world) \<Rightarrow> world \<Rightarrow> (exn + 'a) \<times> world" where
  "retry name fn w = retry_loop 3 name fn 1 w"

section \<open>tron\_service.py\<close>

text \<open>One attempt of \<^verbatim>\<open>validate_tron_address\<close>: one \<^verbatim>\<open>client.get_account\<close> call.\<close>

definition validate_tron_address_body :: "env \<Rightarrow> string \<Rightarrow> world \<Rightarrow> (exn + bool) \<times> world" where
  "validate_tron_address_body E a w =
     (let w1 = w\<lparr>account_calls := account_calls w + 1\<rparr> in
      case get_account E (account_calls w) a of
        Inr account \<Rightarrow> (Inr True, w1)
      | Inl e \<Rightarrow>
          (case e of
             AddressNotFound m \<Rightarrow>
               (Inr False, logger WARNING (''Invalid Tron address attempted: '' @ a) w1)
           | _ \<Rightarrow> (Inl e, w1)))"

definition validate_tron_address :: "env \<Rightarrow> string \<Rightarrow> world \<Rightarrow> (exn + bool) \<times> world" where
  "validate_tron_address E a = retry ''validate_tron_address'' (validate_tron_address_body E a)"

text \<open>\<^verbatim>\<open>resource.get(key, 0)\<close>.\<close>

definition dict_get :: "(string \<rightharpoonup> int) \<Rightarrow> string \<Rightarrow> int \<Rightarrow> int" where
  "dict_get d k dflt = (case d k of None \<Rightarrow> dflt | Some v \<Rightarrow> v)"

definition call_resource :: "env \<Rightarrow> string \<Rightarrow> world \<Rightarrow> (exn + (string \<rightharpoonup> int)) \<times> world" where
  "call_resource E a w =
     (get_account_resource E (resource_calls w) a, w\<lparr>resource_calls := resource_calls w + 1\<rparr>)"

definition call_balance :: "env \<Rightarrow> string \<Rightarrow> world \<Rightarrow> (exn + decimal) \<times> world" where
  "call_balance E a w =
     (get_account_balance E (balance_calls w) a, w\<lparr>balance_calls := balance_calls w + 1\<rparr>)"

text \<open>
  One attempt of \<^verbatim>\<open>get_address_info\<close>. The validation (line 61) is outside the \<^verbatim>\<open>try\<close>; the
  \<^verbatim>\<open>except Exception\<close> of lines 74-76 logs and raises the same exception again.
\<close>

definition failed_to_retrieve :: "string \<Rightarrow> exn \<Rightarrow> world \<Rightarrow> world" where
  "failed_to_retrieve a e w =
     logger ERROR (''Failed to retrieve info for address '' @ a @ '': '' @ str e) w"

definition get_address_info_body :: "env \<Rightarrow> string \<Rightarrow> world \<Rightarrow> (exn + info) \<times> world" where
  "get_address_info_body E a w =
     (case validate_tron_address E a w of
        (Inl e, w1) \<Rightarrow> (Inl e, w1)
      | (Inr valid, w1) \<Rightarrow>
          if \<not> valid then (Inl (ValueError ''Invalid Tron address''), w1)
          else
            (case call_resource E a w1 of
               (Inl e, w2) \<Rightarrow> (Inl e, failed_to_retrieve a e w2)
             | (Inr resource, w2) \<Rightarrow>
                 (case call_balance E a w2 of
                    (Inl e, w3) \<Rightarrow> (Inl e, failed_to_retrieve a e w3)
                  | (Inr bal, w3) \<Rightarrow>
                      (Inr \<lparr>bandwidth = dict_get resource ''NetLimit'' 0,
                            energy = dict_get resource ''EnergyLimit'' 0,
                            balance = bal\<rparr>,
                       logger INFO (''Successfully retrieved info for address: '' @ a) w3))))"

definition get_address_info :: "env \<Rightarrow> string \<Rightarrow> world \<Rightarrow> (exn + info) \<times> world" where
  "get_address_info E a = retry ''get_address_info'' (get_address_info_body E a)"

section \<open>The result cache (main.py, line 26)\<close>

text \<open>
  Modelled from the spec: the operations of \<^verbatim>\<open>cachetools.TTLCache\<close>, which is not part of the
  sources. Every entry is time-bounded by \<open>ttl\<close> (5 minutes) and the cache holds at most
  \<open>maxsize\<close> (100) entries; setting a new key in a full cache evicts the least recently used
  entry. The cache reads a monotonic timer, passed as \<open>time\<close>.
\<close>

definition maxsize :: nat where
  "maxsize = 100"

definition ttl :: nat where
  "ttl = 300"

text \<open>Modelled from the spec: remove the entries whose time is up.\<close>

definition expire :: "nat \<Rightarrow> ('k, 'v) ttl_cache \<Rightarrow> ('k, 'v) ttl_cache" where
  "expire time c = filter (\<lambda>(k, v, expires). time < expires) c"

text \<open>Modelled from the spec: \<^verbatim>\<open>key in cache\<close>; an expired entry is not in the cache.\<close>

definition cache_contains :: "nat \<Rightarrow> 'k \<Rightarrow> ('k, 'v) ttl_cache \<Rightarrow> bool" where
  "cache_contains time key c =
     (case map_of c key of None \<Rightarrow> False | Some (v, expires) \<Rightarrow> time < expires)"

text \<open>Modelled from the spec: the entry of the key becomes the most recently used.\<close>

definition move_to_end :: "'k \<Rightarrow> ('k, 'v) ttl_cache \<Rightarrow> ('k, 'v) ttl_cache" where
  "move_to_end key c = filter (\<lambda>e. fst e \<noteq> key) c @ filter (\<lambda>e. fst e = key) c"

text \<open>
  Modelled from the spec: \<^verbatim>\<open>cache[key]\<close>; a missing or expired key raises \<^verbatim>\<open>KeyError\<close>, a
  key that is read becomes the most recently used.
\<close>

definition cache_getitem ::
  "nat \<Rightarrow> string \<Rightarrow> (string, 'v) ttl_cache \<Rightarrow> (exn + 'v) \<times> (string, 'v) ttl_cache" where
  "cache_getitem time key c =
     (case map_of c key of
        None \<Rightarrow> (Inl (KeyError key), c)
      | Some (v, expires) \<Rightarrow>
          if time < expires then (Inr v, move_to_end key c)
          else (Inl (KeyError key), move_to_end key c))"

text \<open>
  Modelled from the spec: while the cache is full, drop the least recently used entry
  (with \<open>maxsize = 100\<close> the loop never meets an empty cache).
\<close>

fun make_room :: "('k, 'v) ttl_cache \<Rightarrow> ('k, 'v) ttl_cache" where
  "make_room [] = []"
| "make_room (x # xs) = (if maxsize < length (x # xs) + 1 then make_room xs else x # xs)"

text \<open>
  Modelled from the spec: \<^verbatim>\<open>cache[key] = value\<close>; expired entries are removed first, room is
  made for a new key, and the entry expires \<open>ttl\<close> after now.
\<close>

definition cache_setitem :: "nat \<Rightarrow> 'k \<Rightarrow> 'v \<Rightarrow> ('k, 'v) ttl_cache \<Rightarrow> ('k, 'v) ttl_cache" where
  "cache_setitem time key v c =
     (let c1 = expire time c;
          c2 = (if key \<in> fst ` set c1 then c1 else make_room c1)
      in filter (\<lambda>e. fst e \<noteq> key) c2 @ [(key, v, time + ttl)])"

section \<open>The store (database.py, models.py)\<close>

text \<open>
  The SQLAlchemy session is not part of the sources either. Every awaited call of the
  session (\<^verbatim>\<open>execute\<close>, \<^verbatim>\<open>commit\<close>, \<^verbatim>\<open>refresh\<close>) is one round trip to the database, which
  the environment lets succeed or fail.
\<close>

definition db_round_trip :: "env \<Rightarrow> world \<Rightarrow> (exn + unit) \<times> world" where
  "db_round_trip E w =
     (case db_fault E (db_calls w) of
        Some e \<Rightarrow> (Inl e, w\<lparr>db_calls := db_calls w + 1\<rparr>)
      | None \<Rightarrow> (Inr (), w\<lparr>db_calls := db_calls w + 1\<rparr>))"

text \<open>
  An integer that is bound as a parameter of a statement must fit the store's 64-bit
  integer (the default store is SQLite, database.py line 11); the driver raises an
  \<^verbatim>\<open>OverflowError\<close> for any other, before the statement reaches the database.
\<close>

definition fits_integer :: "int \<Rightarrow> bool" where
  "fits_integer x \<longleftrightarrow> - (2 ^ 63) \<le> x \<and> x < 2 ^ 63"

definition integer_overflow :: exn where
  "integer_overflow = OtherException ''Python int too large to convert to SQLite INTEGER''"

definition db_execute :: "env \<Rightarrow> int list \<Rightarrow> world \<Rightarrow> (exn + unit) \<times> world" where
  "db_execute E params w =
     (if list_all fits_integer params then db_round_trip E w else (Inl integer_overflow, w))"

text \<open>The integer primary key: one more than the largest key in the table.\<close>

definition next_row_id :: "TronAddressInfo list \<Rightarrow> nat" where
  "next_row_id rows = fold max (map row_id rows) 0 + 1"

text \<open>
  \<^verbatim>\<open>db.add(db_entry); await db.commit()\<close>: the pending entry is inserted, with its key and
  its timestamp, and committed; if the insertion fails nothing is stored. The columns
  \<^verbatim>\<open>bandwidth\<close> and \<^verbatim>\<open>energy\<close> are \<^verbatim>\<open>Integer\<close>, the column \<^verbatim>\<open>balance\<close> is \<^verbatim>\<open>Float\<close>: the row holds
  the float of the decimal.
\<close>

definition db_commit :: "env \<Rightarrow> string \<Rightarrow> info \<Rightarrow> world \<Rightarrow> (exn + TronAddressInfo) \<times> world" where
  "db_commit E a i w =
     (case db_execute E [bandwidth i, energy i] w of
        (Inl e, w1) \<Rightarrow> (Inl e, w1)
      | (Inr u, w1) \<Rightarrow>
          (let row = \<lparr>bandwidth = bandwidth i, energy = energy i,
                      balance = as_float E (balance i),
                      address = a, row_id = next_row_id (table w1), timestamp = now w1\<rparr>
           in (Inr row, w1\<lparr>table := table w1 @ [row]\<rparr>)))"

text \<open>\<^verbatim>\<open>await db.refresh(db_entry)\<close>: the row is read back.\<close>

definition db_refresh :: "env \<Rightarrow> world \<Rightarrow> (exn + unit) \<times> world" where
  "db_refresh E w = db_round_trip E w"

section \<open>main.py: POST /address\_info\<close>

text \<open>Lines 64-70: the cached value, or the fetched one, which is then cached.\<close>

definition cached_or_fetched :: "env \<Rightarrow> string \<Rightarrow> world \<Rightarrow> (exn + info) \<times> world" where
  "cached_or_fetched E a w =
     (if cache_contains (now w) a (cache w) then
        (let w1 = logger INFO (''Cache hit for address: '' @ a) w in
         case cache_getitem (now w1) a (cache w1) of
           (r, c) \<Rightarrow> (r, w1\<lparr>cache := c\<rparr>))
      else
        (case get_address_info E a w of
           (Inl e, w1) \<Rightarrow> (Inl e, w1)
         | (Inr i, w1) \<Rightarrow>
             (Inr i, logger INFO (''Cache updated for address: '' @ a)
                       (w1\<lparr>cache := cache_setitem (now w1) a i (cache w1)\<rparr>))))"

text \<open>Lines 73-87: the record is added, committed and refreshed, then the response is built.\<close>

definition persist_and_respond ::
  "env \<Rightarrow> string \<Rightarrow> info \<Rightarrow> world \<Rightarrow> (exn + address_response) \<times> world" where
  "persist_and_respond E a i w =
     (case db_commit E a i w of
        (Inl e, w1) \<Rightarrow> (Inl e, w1)
      | (Inr row, w1) \<Rightarrow>
          (case db_refresh E w1 of
             (Inl e, w2) \<Rightarrow> (Inl e, w2)
           | (Inr u, w2) \<Rightarrow>
               (Inr \<lparr>bandwidth = bandwidth i, energy = energy i, balance = balance i,
                     address = a\<rparr>, w2)))"

text \<open>The body of the \<^verbatim>\<open>try\<close> (lines 62-87).\<close>

definition try_block :: "env \<Rightarrow> string \<Rightarrow> world \<Rightarrow> (exn + address_response) \<times> world" where
  "try_block E a w =
     (case cached_or_fetched E a w of
        (Inl e, w1) \<Rightarrow> (Inl e, w1)
      | (Inr i, w1) \<Rightarrow> persist_and_respond E a i w1)"

text \<open>
  The two \<^verbatim>\<open>except\<close> clauses (lines 88-93): a \<^verbatim>\<open>ConnectionError\<close> or \<^verbatim>\<open>HTTPError\<close> becomes a
  500 whose detail is \<^verbatim>\<open>Network error:\<close> and the message, any other exception a 500 whose
  detail is \<^verbatim>\<open>Internal server error:\<close> and the message.
\<close>

definition except_clauses ::
  "string \<Rightarrow> (exn + address_response) \<times> world \<Rightarrow> (exn + address_response) \<times> world" where
  "except_clauses a rw =
     (case rw of
        (Inr r, w) \<Rightarrow> (Inr r, w)
      | (Inl e, w) \<Rightarrow>
          if network_error e then
            (Inl (HTTPException 500 (''Network error: '' @ str e)),
             logger ERROR (''Network error for address '' @ a @ '': '' @ str e) w)
          else
            (Inl (HTTPException 500 (''Internal server error: '' @ str e)),
             logger ERROR (''Error processing address '' @ a @ '': '' @ str e) w))"

text \<open>
  The endpoint. The validation of line 60 is before the \<^verbatim>\<open>try\<close>: an exception it raises
  leaves the endpoint as it is, and only a \<^verbatim>\<open>False\<close> becomes the 400.
\<close>

definition get_address_info_endpoint ::
  "env \<Rightarrow> string \<Rightarrow> world \<Rightarrow> (exn + address_response) \<times> world" where
  "get_address_info_endpoint E a w =
     (case validate_tron_address E a w of
        (Inl e, w1) \<Rightarrow> (Inl e, w1)
      | (Inr valid, w1) \<Rightarrow>
          if \<not> valid then (Inl (HTTPException 400 ''Invalid Tron address''), w1)
          else except_clauses a (try_block E a w1))"

section \<open>main.py: GET /recent\_requests\<close>

record page_response =
  total :: nat
  page :: int
  page_size :: int
  data :: "TronAddressInfo list"

text \<open>
  The handler body (lines 120-153): a count query, then the page query, whose parameters
  are the limit \<^verbatim>\<open>page_size\<close> and the offset \<^verbatim>\<open>(page - 1) * page_size\<close>, on the rows in the
  store's order for \<^verbatim>\<open>ORDER BY timestamp DESC\<close>; a failure of either becomes a 500. (The
  parameters are at least 1 when the body runs, see \<open>recent_requests_route\<close>.)
\<close>

definition internal_server_error :: "exn \<Rightarrow> world \<Rightarrow> (exn + 'a) \<times> world" where
  "internal_server_error e w =
     (Inl (HTTPException 500 (''Internal server error: '' @ str e)),
      logger ERROR (''Error retrieving recent requests: '' @ str e) w)"

definition get_recent_requests :: "env \<Rightarrow> int \<Rightarrow> int \<Rightarrow> world \<Rightarrow> (exn + page_response) \<times> world" where
  "get_recent_requests E pg pg_size w =
     (case db_round_trip E w of
        (Inl e, w1) \<Rightarrow> internal_server_error e w1
      | (Inr u, w1) \<Rightarrow>
          (let tot = length (table w1) in
           case db_execute E [pg_size, (pg - 1) * pg_size] w1 of
             (Inl e, w2) \<Rightarrow> internal_server_error e w2
           | (Inr u', w2) \<Rightarrow>
               (let results = take (nat pg_size)
                                (drop (nat ((pg - 1) * pg_size))
                                   (order_by E (table w2)))
                in (Inr \<lparr>total = tot, page = pg, page_size = pg_size, data = results\<rparr>,
                    logger INFO (''Retrieved recent requests: page='' @ str_int pg @
                                 '', page_size='' @ str_int pg_size) w2))))"

text \<open>
  The declarations \<^verbatim>\<open>Query(1, ge=1)\<close> and \<^verbatim>\<open>Query(10, ge=1, le=100)\<close> of lines 104-105: a
  parameter that is left out takes the default, one that is supplied must lie within the
  bounds.
\<close>

definition Query :: "int \<Rightarrow> int option \<Rightarrow> int option \<Rightarrow> int option \<Rightarrow> bool \<times> int" where
  "Query dflt ge le supplied =
     (case supplied of
        None \<Rightarrow> (True, dflt)
      | Some v \<Rightarrow>
          ((case ge of None \<Rightarrow> True | Some lo \<Rightarrow> lo \<le> v) \<and>
           (case le of None \<Rightarrow> True | Some hi \<Rightarrow> v \<le> hi), v))"

text \<open>
  The route: the framework checks both parameters and rejects the request, naming the
  parameters out of bounds, before the handler body runs.
\<close>

definition recent_requests_route ::
  "env \<Rightarrow> int option \<Rightarrow> int option \<Rightarrow> world \<Rightarrow> (exn + page_response) \<times> world" where
  "recent_requests_route E page_q page_size_q w =
     (let (ok1, pg) = Query 1 (Some 1) None page_q;
          (ok2, pg_size) = Query 10 (Some 1) (Some 100) page_size_q;
          errors = (if ok1 then [] else [''page'']) @ (if ok2 then [] else [''page_size''])
      in if errors \<noteq> [] then (Inl (RequestValidationError errors), w)
         else get_recent_requests E pg pg_size w)"

section \<open>Auxiliary notions\<close>

text \<open>What the decorated function raises or returns, from the outcome of its last attempt.\<close>

definition surfaced :: "exn + 'a \<Rightarrow> exn + 'a" where
  "surfaced r = (case r of Inr v \<Rightarrow> Inr v
                 | Inl e \<Rightarrow> if network_error e then Inl (RetryError e) else Inl e)"

definition only_validation :: "world \<Rightarrow> world \<Rightarrow> bool" where
  "only_validation w w' \<longleftrightarrow>
     resource_calls w' = resource_calls w \<and> balance_calls w' = balance_calls w \<and>
     db_calls w' = db_calls w \<and> cache w' = cache w \<and> table w' = table w \<and>
     now w \<le> now w' \<and> account_calls w \<le> account_calls w'"

text \<open>What one attempt of \<open>get_address_info\<close> may change.\<close>

definition only_remote :: "world \<Rightarrow> world \<Rightarrow> bool" where
  "only_remote w w' \<longleftrightarrow>
     db_calls w' = db_calls w \<and> cache w' = cache w \<and> table w' = table w \<and>
     now w \<le> now w' \<and> account_calls w \<le> account_calls w' \<and>
     resource_calls w \<le> resource_calls w' \<and> balance_calls w \<le> balance_calls w'"

text \<open>The integers of a triple fit the \<^verbatim>\<open>Integer\<close> columns.\<close>

definition storable :: "info \<Rightarrow> bool" where
  "storable i \<longleftrightarrow> fits_integer (bandwidth i) \<and> fits_integer (energy i)"

text \<open>
  The lookup reaches the commit, the commit succeeds and the refresh that follows it
  fails.
\<close>

definition commit_then_refresh_fails :: "env \<Rightarrow> string \<Rightarrow> world \<Rightarrow> bool" where
  "commit_then_refresh_fails E a w =
     (case validate_tron_address E a w of
        (rv, w1) \<Rightarrow>
          rv = Inr True \<and>
          (case cached_or_fetched E a w1 of
             (Inl e, w2) \<Rightarrow> False
           | (Inr i, w2) \<Rightarrow>
               (case db_commit E a i w2 of
                  (Inl e, w3) \<Rightarrow> False
                | (Inr row, w3) \<Rightarrow> isl (fst (db_refresh E w3)))))"

text \<open>
  Fixtures. The order SQLite gives: newest first, rows with equal timestamps as they
  were inserted.
\<close>

definition newest_first :: "TronAddressInfo list \<Rightarrow> TronAddressInfo list" where
  "newest_first rows = sort_key (\<lambda>r. - int (timestamp r)) rows"

text \<open>
  An empty state, and a ledger and a database that always answer. The only balances of
  the fixtures are \<open>1 / 4\<close> and \<open>0\<close>, which are floats and are stored as they are.
\<close>

definition world0 :: world where
  "world0 = \<lparr>now = 0, account_calls = 0, resource_calls = 0, balance_calls = 0, db_calls = 0,
             sleeps = [], logs = [], cache = [], table = []\<rparr>"

definition ledger_up :: env where
  "ledger_up = \<lparr>get_account = (\<lambda>n a. Inr ()),
                get_account_resource = (\<lambda>n a. Inr (Map.empty(''NetLimit'' \<mapsto> 600))),
                get_account_balance = (\<lambda>n a. Inr (1 / 4)),
                db_fault = (\<lambda>n. None),
                as_float = (\<lambda>d. d),
                order_by = newest_first\<rparr>"

definition ledger_unknown :: env where
  "ledger_unknown = ledger_up\<lparr>get_account := (\<lambda>n a. Inl (AddressNotFound ''account not found''))\<rparr>"

text \<open>
  A run of the cache: each operation (\<^verbatim>\<open>key in cache\<close>, \<^verbatim>\<open>cache[key]\<close>, \<^verbatim>\<open>cache[key] = value\<close>)
  comes with the time the timer shows when it is made.
\<close>

datatype 'v cache_op = Contains string | Get string | Set string 'v

fun apply_op :: "nat \<Rightarrow> 'v cache_op \<Rightarrow> (string, 'v) ttl_cache \<Rightarrow> (string, 'v) ttl_cache" where
  "apply_op t (Contains k) c = c"
| "apply_op t (Get k) c = snd (cache_getitem t k c)"
| "apply_op t (Set k v) c = cache_setitem t k v c"

fun run_ops :: "(nat \<times> 'v cache_op) list \<Rightarrow> (string, 'v) ttl_cache \<Rightarrow> (string, 'v) ttl_cache" where
  "run_ops [] c = c"
| "run_ops ((t, op) # ops) c = run_ops ops (apply_op t op c)"

text \<open>Every entry was set by an operation of the sequence and expires \<open>ttl\<close> after that.\<close>

definition set_by :: "(nat \<times> 'v cache_op) set \<Rightarrow> (string, 'v) ttl_cache \<Rightarrow> bool" where
  "set_by S c \<longleftrightarrow> (\<forall>(k, v, e) \<in> set c. \<exists>s. e = s + ttl \<and> (s, Set k v) \<in> S)"

definition cache_inv :: "(nat \<times> 'v cache_op) set \<Rightarrow> (string, 'v) ttl_cache \<Rightarrow> bool" where
  "cache_inv S c \<longleftrightarrow> length c \<le> maxsize \<and> distinct (map fst c) \<and> set_by S c"

text \<open>Fixtures: a table of three rows.\<close>

definition row_of :: "nat \<Rightarrow> nat \<Rightarrow> TronAddressInfo" where
  "row_of i t = \<lparr>bandwidth = 0, energy = 0, balance = 0, address = ''T'', row_id = i, timestamp = t\<rparr>"

definition world3 :: world where
  "world3 = world0\<lparr>table := [row_of 1 5, row_of 2 9, row_of 3 7]\<rparr>"

text \<open>The state in which the third attempt of the validator ends.\<close>

definition third_validation :: "world \<Rightarrow> world" where
  "third_validation w =
     (pause ''validate_tron_address'' 2
        ((pause ''validate_tron_address'' 1
            (w\<lparr>account_calls := account_calls w + 1\<rparr>))
           \<lparr>account_calls := account_calls w + 2\<rparr>))
       \<lparr>account_calls := account_calls w + 3\<rparr>"

text \<open>The states after the first and the second failed attempt of the fetch.\<close>

definition fetch_failed :: "string \<Rightarrow> exn \<Rightarrow> world \<Rightarrow> world" where
  "fetch_failed a e w =
     failed_to_retrieve a e
       (w\<lparr>account_calls := account_calls w + 1, resource_calls := resource_calls w + 1\<rparr>)"


definition ledger_down :: env where
  "ledger_down = ledger_up\<lparr>get_account := (\<lambda>n a. Inl (ConnectionError ''Network error''))\<rparr>"



definition fetch_down :: env where
  "fetch_down = ledger_up\<lparr>get_account_resource :=
     (\<lambda>n a. Inl (ConnectionError ''Network error''))\<rparr>"



definition refresh_fails :: env where
  "refresh_fails = ledger_up\<lparr>db_fault :=
     (\<lambda>n. if n = 1 then Some (OtherException ''connection lost'') else None)\<rparr>"

text \<open>
  Lookups, one after the other, and the state after a lookup of \<^verbatim>\<open>TX\<close> followed by lookups
  of 100 other addresses.
\<close>

fun lookups :: "env \<Rightarrow> string list \<Rightarrow> world \<Rightarrow> world" where
  "lookups E [] w = w"
| "lookups E (a # as) w = lookups E as (snd (get_address_info_endpoint E a w))"

definition other_addresses :: "string list" where
  "other_addresses = map (\<lambda>n. replicate (Suc n) CHR ''A'') [0 ..< 100]"

definition info_up :: info where
  "info_up = \<lparr>bandwidth = 600, energy = 0, balance = 1 / 4\<rparr>"

definition world_crowded :: world where
  "world_crowded =
     lookups ledger_up other_addresses (snd (get_address_info_endpoint ledger_up ''TX'' world0))"

text \<open>
  The state 299 seconds after a lookup of \<^verbatim>\<open>TX\<close> followed by a lookup of \<^verbatim>\<open>TY\<close>.
\<close>

definition world_between :: world where
  "world_between =
     (lookups ledger_up [''TY''] (snd (get_address_info_endpoint ledger_up ''TX'' world0)))
       \<lparr>now := 299\<rparr>"

section \<open>The retry loop\<close>

lemma retry_loop_returns:
  "fn w = (Inr v, w1) \<Longrightarrow> retry_loop mx name fn n w = (Inr v, w1)"
  by (simp add: retry_loop.simps)

lemma retry_loop_raises:
  "fn w = (Inl e, w1) \<Longrightarrow> \<not> network_error e \<Longrightarrow> retry_loop mx name fn n w = (Inl e, w1)"
  by (simp add: retry_loop.simps)

lemma retry_loop_gives_up:
  "fn w = (Inl e, w1) \<Longrightarrow> network_error e \<Longrightarrow> mx \<le> n \<Longrightarrow>
   retry_loop mx name fn n w = (Inl (RetryError e), w1)"
  by (simp add: retry_loop.simps stop_after_attempt_def)

lemma retry_loop_again:
  "fn w = (Inl e, w1) \<Longrightarrow> network_error e \<Longrightarrow> n < mx \<Longrightarrow>
   retry_loop mx name fn n w = retry_loop mx name fn (n + 1) (pause name n w1)"
  by (subst retry_loop.simps) (simp add: stop_after_attempt_def)

lemma retry_loop_last_attempt:
  assumes refl: "\<And>w. R w w"
    and trans: "\<And>a b c. R a b \<Longrightarrow> R b c \<Longrightarrow> R a c"
    and step: "\<And>w r w'. fn w = (r, w') \<Longrightarrow> R w w'"
    and idle: "\<And>n w. R w (pause name n w)"
  shows "\<exists>w0 r0. R w w0 \<and> fn w0 = (r0, snd (retry_loop mx name fn n w)) \<and>
           fst (retry_loop mx name fn n w) = surfaced r0"
  using step idle
proof (induction mx name fn n w rule: retry_loop.induct)
  case (1 mx name fn n w)
  note step = "1.prems"(1) and idle = "1.prems"(2)
  obtain r w1 where f: "fn w = (r, w1)" by (cases "fn w")
  have s: "R w w1" using step[OF f] .
  show ?case
  proof (cases r)
    case (Inr v)
    with f refl show ?thesis
      by (intro exI[of _ w] exI[of _ r]) (simp add: retry_loop_returns surfaced_def)
  next
    case (Inl e)
    show ?thesis
    proof (cases "network_error e")
      case False
      with f Inl refl show ?thesis
        by (intro exI[of _ w] exI[of _ r]) (simp add: retry_loop_raises surfaced_def)
    next
      case True
      show ?thesis
      proof (cases "n < mx")
        case False
        with f Inl True refl show ?thesis
          by (intro exI[of _ w] exI[of _ r]) (simp add: retry_loop_gives_up surfaced_def)
      next
        case lt: True
        let ?w2 = "pause name n w1"
        let ?res = "retry_loop mx name fn (n + 1) ?w2"
        have "\<exists>w0 r0. R ?w2 w0 \<and> fn w0 = (r0, snd ?res) \<and> fst ?res = surfaced r0"
          using "1.IH"[of "Inl e" w1 e] f Inl True lt step idle
          by (simp add: stop_after_attempt_def)
        then obtain w0 r0 where *: "R ?w2 w0" "fn w0 = (r0, snd ?res)" "fst ?res = surfaced r0"
          by blast
        have "R w ?w2" using s idle[of w1 n] trans by blast
        with * have "R w w0" using trans by blast
        moreover have "retry_loop mx name fn n w = ?res"
          using f Inl True lt by (simp add: retry_loop_again)
        ultimately show ?thesis using * by auto
      qed
    qed
  qed
qed

lemma retry_loop_counter:
  fixes c :: "world \<Rightarrow> nat"
  assumes step: "\<And>w r w'. fn w = (r, w') \<Longrightarrow> c w' \<le> c w + k"
    and idle: "\<And>n w. c (pause name n w) = c w"
  shows "c (snd (retry_loop mx name fn n w)) \<le> c w + k * Suc (mx - n)"
  using step idle
proof (induction mx name fn n w rule: retry_loop.induct)
  case (1 mx name fn n w)
  note step = "1.prems"(1) and idle = "1.prems"(2)
  obtain r w1 where f: "fn w = (r, w1)" by (cases "fn w")
  have s: "c w1 \<le> c w + k" using step[OF f] .
  show ?case
  proof (cases r)
    case (Inr v)
    with f s show ?thesis by (simp add: retry_loop_returns)
  next
    case (Inl e)
    show ?thesis
    proof (cases "network_error e")
      case False
      with f Inl s show ?thesis by (simp add: retry_loop_raises)
    next
      case True
      show ?thesis
      proof (cases "n < mx")
        case False
        with f Inl True s show ?thesis by (simp add: retry_loop_gives_up)
      next
        case lt: True
        let ?w2 = "pause name n w1"
        have "c (snd (retry_loop mx name fn (n + 1) ?w2)) \<le> c ?w2 + k * Suc (mx - (n + 1))"
          using "1.IH"[of "Inl e" w1 e] f Inl True lt step idle
          by (simp add: stop_after_attempt_def)
        moreover have "mx - n = Suc (mx - (n + 1))" using lt by simp
        ultimately have "c (snd (retry_loop mx name fn (n + 1) ?w2)) \<le> c w + k + k * (mx - n)"
          using s idle[of n w1] by (simp only: mult_Suc_right)
        then show ?thesis
          using f Inl True lt by (simp add: retry_loop_again)
      qed
    qed
  qed
qed

lemma retry_loop_frame:
  assumes refl: "\<And>w. R w w"
    and trans: "\<And>a b c. R a b \<Longrightarrow> R b c \<Longrightarrow> R a c"
    and step: "\<And>w r w'. fn w = (r, w') \<Longrightarrow> R w w'"
    and idle: "\<And>n w. R w (pause name n w)"
  shows "R w (snd (retry_loop mx name fn n w))"
proof -
  have "\<exists>w0 r0. R w w0 \<and> fn w0 = (r0, snd (retry_loop mx name fn n w)) \<and>
           fst (retry_loop mx name fn n w) = surfaced r0"
  proof (rule retry_loop_last_attempt[where R = R])
    show "\<And>w. R w w" by (rule refl)
    show "\<And>a b c. R a b \<Longrightarrow> R b c \<Longrightarrow> R a c" by (rule trans)
    show "\<And>w r w'. fn w = (r, w') \<Longrightarrow> R w w'" by (rule step)
    show "\<And>n w. R w (pause name n w)" by (rule idle)
  qed
  then obtain w0 r0 where "R w w0" "fn w0 = (r0, snd (retry_loop mx name fn n w))"
    by blast
  then show ?thesis using step trans by blast
qed

lemma pause_fields [simp]:
  "account_calls (pause name n w) = account_calls w"
  "resource_calls (pause name n w) = resource_calls w"
  "balance_calls (pause name n w) = balance_calls w"
  "db_calls (pause name n w) = db_calls w"
  "cache (pause name n w) = cache w"
  "table (pause name n w) = table w"
  "now (pause name n w) = now w + wait_exponential 1 1 10 n"
  "sleeps (pause name n w) = sleeps w @ [wait_exponential 1 1 10 n]"
  by (simp_all add: pause_def asyncio_sleep_def before_sleep_def logger_def)

lemma logger_fields [simp]:
  "account_calls (logger l m w) = account_calls w"
  "resource_calls (logger l m w) = resource_calls w"
  "balance_calls (logger l m w) = balance_calls w"
  "db_calls (logger l m w) = db_calls w"
  "cache (logger l m w) = cache w"
  "table (logger l m w) = table w"
  "now (logger l m w) = now w"
  "sleeps (logger l m w) = sleeps w"
  by (simp_all add: logger_def)

lemma validate_body_fields:
  assumes "validate_tron_address_body E a w = (r, w')"
  shows "account_calls w' = account_calls w + 1" "resource_calls w' = resource_calls w"
    "balance_calls w' = balance_calls w" "db_calls w' = db_calls w" "cache w' = cache w"
    "table w' = table w" "now w' = now w" "sleeps w' = sleeps w"
  using assms
  by (auto simp: validate_tron_address_body_def Let_def split: sum.splits exn.splits)

lemma validate_frame: "only_validation w (snd (validate_tron_address E a w))"
  unfolding validate_tron_address_def retry_def
  by (rule retry_loop_frame)
     (auto simp: only_validation_def dest: validate_body_fields)

lemma validate_account_calls:
  "account_calls (snd (validate_tron_address E a w)) \<le> account_calls w + 3"
  using retry_loop_counter[of "validate_tron_address_body E a" account_calls 1
          "''validate_tron_address''" 3 1 w]
  by (simp add: validate_tron_address_def retry_def validate_body_fields)

lemma failed_to_retrieve_fields [simp]:
  "account_calls (failed_to_retrieve a e w) = account_calls w"
  "resource_calls (failed_to_retrieve a e w) = resource_calls w"
  "balance_calls (failed_to_retrieve a e w) = balance_calls w"
  "db_calls (failed_to_retrieve a e w) = db_calls w"
  "cache (failed_to_retrieve a e w) = cache w"
  "table (failed_to_retrieve a e w) = table w"
  "now (failed_to_retrieve a e w) = now w"
  "sleeps (failed_to_retrieve a e w) = sleeps w"
  by (simp_all add: failed_to_retrieve_def)

lemma validate_result:
  assumes "validate_tron_address E a w = (r, w1)"
  shows "resource_calls w1 = resource_calls w" "balance_calls w1 = balance_calls w"
    "db_calls w1 = db_calls w" "cache w1 = cache w" "table w1 = table w"
    "now w \<le> now w1" "account_calls w \<le> account_calls w1"
    "account_calls w1 \<le> account_calls w + 3"
  using validate_frame[of w E a] validate_account_calls[of E a w] assms
  by (simp_all add: only_validation_def)

lemma body_fields:
  assumes "get_address_info_body E a w = (r, w')"
  shows "only_remote w w'" "resource_calls w' \<le> resource_calls w + 1"
    "balance_calls w' \<le> balance_calls w + 1" "account_calls w' \<le> account_calls w + 3"
proof -
  obtain rv w1 where v: "validate_tron_address E a w = (rv, w1)"
    by (cases "validate_tron_address E a w")
  note f = validate_result[OF v]
  from assms v f show "only_remote w w'" "resource_calls w' \<le> resource_calls w + 1"
    "balance_calls w' \<le> balance_calls w + 1" "account_calls w' \<le> account_calls w + 3"
    by (auto simp: get_address_info_body_def only_remote_def call_resource_def
          call_balance_def split: sum.splits if_splits)
qed

lemma body_success:
  assumes "get_address_info_body E a w = (Inr i, w')"
  shows "\<exists>w1 resource.
           validate_tron_address E a w = (Inr True, w1) \<and>
           get_account_resource E (resource_calls w) a = Inr resource \<and>
           get_account_balance E (balance_calls w) a = Inr (balance i) \<and>
           bandwidth i = dict_get resource ''NetLimit'' 0 \<and>
           energy i = dict_get resource ''EnergyLimit'' 0 \<and>
           resource_calls w' = resource_calls w + 1 \<and>
           balance_calls w' = balance_calls w + 1"
proof -
  obtain rv w1 where v: "validate_tron_address E a w = (rv, w1)"
    by (cases "validate_tron_address E a w")
  note f = validate_result[OF v]
  from assms v f show ?thesis
    by (auto simp: get_address_info_body_def call_resource_def
          call_balance_def split: sum.splits if_splits)
qed

lemma get_address_info_last_attempt:
  "\<exists>w0 r0. only_remote w w0 \<and>
     get_address_info_body E a w0 = (r0, snd (get_address_info E a w)) \<and>
     fst (get_address_info E a w) = surfaced r0"
  unfolding get_address_info_def retry_def
proof (rule retry_loop_last_attempt[where R = only_remote])
  show "\<And>w. only_remote w w" by (simp add: only_remote_def)
  show "\<And>a b c. only_remote a b \<Longrightarrow> only_remote b c \<Longrightarrow> only_remote a c"
    by (simp add: only_remote_def)
  show "\<And>w r w'. get_address_info_body E a w = (r, w') \<Longrightarrow> only_remote w w'"
    by (rule body_fields)
  show "\<And>n w. only_remote w (pause ''get_address_info'' n w)"
    by (simp add: only_remote_def)
qed

lemma get_address_info_frame: "only_remote w (snd (get_address_info E a w))"
proof -
  obtain w0 r0 where "only_remote w w0"
    "get_address_info_body E a w0 = (r0, snd (get_address_info E a w))"
    using get_address_info_last_attempt by blast
  then show ?thesis using body_fields(1)[of E a w0] by (auto simp: only_remote_def)
qed

lemma surfaced_Inr: "surfaced r = Inr v \<longleftrightarrow> r = Inr v"
  by (auto simp: surfaced_def split: sum.splits)

lemma get_address_info_returns:
  assumes "get_address_info E a w = (Inr i, w')"
  shows "\<exists>resource.
           get_account_resource E (resource_calls w' - 1) a = Inr resource \<and>
           bandwidth i = (case resource ''NetLimit'' of None \<Rightarrow> 0 | Some v \<Rightarrow> v) \<and>
           energy i = (case resource ''EnergyLimit'' of None \<Rightarrow> 0 | Some v \<Rightarrow> v) \<and>
           get_account_balance E (balance_calls w' - 1) a = Inr (balance i) \<and>
           resource_calls w < resource_calls w' \<and> balance_calls w < balance_calls w'"
proof -
  obtain w0 r0 where r: "only_remote w w0"
    and b: "get_address_info_body E a w0 = (r0, snd (get_address_info E a w))"
    and s: "fst (get_address_info E a w) = surfaced r0"
    using get_address_info_last_attempt by blast
  from s assms have "surfaced r0 = Inr i" by simp
  then have "r0 = Inr i" by (simp only: surfaced_Inr)
  with b assms have "get_address_info_body E a w0 = (Inr i, w')" by simp
  from body_success[OF this] r show ?thesis
    by (auto simp: dict_get_def only_remote_def)
qed

section \<open>The cache\<close>

lemma make_room_length: "length (make_room c) < maxsize"
  by (induction c) (auto simp: maxsize_def)

lemma make_room_subset: "set (make_room c) \<subseteq> set c"
  by (induction c) auto

lemma make_room_distinct: "distinct (map fst c) \<Longrightarrow> distinct (map fst (make_room c))"
  by (induction c) auto

lemma expire_subset: "set (expire t c) \<subseteq> set c"
  by (auto simp: expire_def)

lemma expire_length: "length (expire t c) \<le> length c"
  by (simp add: expire_def)

lemma expire_distinct: "distinct (map fst c) \<Longrightarrow> distinct (map fst (expire t c))"
  by (simp add: expire_def distinct_map_filter)

lemma move_to_end_set [simp]: "set (move_to_end k c) = set c"
  by (auto simp: move_to_end_def)

lemma move_to_end_length [simp]: "length (move_to_end k c) = length c"
  using sum_length_filter_compl[of "\<lambda>e. fst e \<noteq> k" c]
  by (simp add: move_to_end_def)

lemma move_to_end_distinct: "distinct (map fst c) \<Longrightarrow> distinct (map fst (move_to_end k c))"
  by (auto simp: move_to_end_def distinct_map_filter)

lemma remove_key_length:
  "k \<in> fst ` set c \<Longrightarrow> length (filter (\<lambda>e. fst e \<noteq> k) c) < length c"
proof (induction c)
  case Nil
  then show ?case by simp
next
  case (Cons x c)
  show ?case
  proof (cases "fst x = k")
    case True
    then show ?thesis by (simp add: less_Suc_eq_le)
  next
    case False
    with Cons.prems have "k \<in> fst ` set c" by auto
    with Cons.IH False show ?thesis by simp
  qed
qed

lemma setitem_length:
  assumes "length c \<le> maxsize"
  shows "length (cache_setitem t k v c) \<le> maxsize"
proof (cases "k \<in> fst ` set (expire t c)")
  case True
  then have "length (filter (\<lambda>e. fst e \<noteq> k) (expire t c)) < length (expire t c)"
    by (rule remove_key_length)
  with True assms expire_length[of t c] show ?thesis
    by (simp add: cache_setitem_def Let_def)
next
  case False
  have "length (filter (\<lambda>e. fst e \<noteq> k) (make_room (expire t c))) \<le> length (make_room (expire t c))"
    by simp
  with make_room_length[of "expire t c"]
  have "Suc (length (filter (\<lambda>e. fst e \<noteq> k) (make_room (expire t c)))) \<le> maxsize"
    by linarith
  with False show ?thesis
    by (simp add: cache_setitem_def Let_def)
qed

lemma setitem_distinct:
  assumes "distinct (map fst c)"
  shows "distinct (map fst (cache_setitem t k v c))"
proof -
  have "distinct (map fst (filter (\<lambda>e. fst e \<noteq> k) d))" if "distinct (map fst d)" for d :: "('a \<times> 'b \<times> nat) list"
    using that by (simp add: distinct_map_filter)
  then show ?thesis using assms
    by (auto simp: cache_setitem_def Let_def expire_distinct make_room_distinct)
qed

lemma setitem_subset:
  "set (cache_setitem t k v c) \<subseteq> insert (k, v, t + ttl) (set c)"
  using expire_subset[of t c] make_room_subset[of "expire t c"]
  by (auto simp: cache_setitem_def Let_def)

lemma getitem_set [simp]: "set (snd (cache_getitem t k c)) = set c"
  by (auto simp: cache_getitem_def split: option.splits)

lemma getitem_length [simp]: "length (snd (cache_getitem t k c)) = length c"
  by (auto simp: cache_getitem_def split: option.splits)

lemma getitem_distinct:
  "distinct (map fst c) \<Longrightarrow> distinct (map fst (snd (cache_getitem t k c)))"
  by (auto simp: cache_getitem_def move_to_end_distinct split: option.splits)

lemma apply_op_inv:
  assumes "cache_inv S c"
  shows "cache_inv (insert (t, op) S) (apply_op t op c)"
proof (cases op)
  case (Contains k)
  with assms show ?thesis by (auto simp: cache_inv_def set_by_def)
next
  case (Get k)
  with assms show ?thesis
    by (auto simp: cache_inv_def set_by_def getitem_distinct)
next
  case (Set k v)
  have "set_by (insert (t, Set k v) S) (cache_setitem t k v c)"
    using assms setitem_subset[of t k v c]
    unfolding cache_inv_def set_by_def by fastforce
  with assms Set show ?thesis
    by (simp add: cache_inv_def setitem_length setitem_distinct)
qed

lemma run_ops_inv:
  "cache_inv S c \<Longrightarrow> cache_inv (S \<union> set ops) (run_ops ops c)"
proof (induction ops arbitrary: S c)
  case Nil
  then show ?case by simp
next
  case (Cons x ops)
  obtain t op where x: "x = (t, op)" by (cases x)
  have "cache_inv (insert (t, op) S \<union> set ops) (run_ops ops (apply_op t op c))"
    by (rule Cons.IH) (rule apply_op_inv[OF Cons.prems])
  then show ?case by (simp add: x)
qed

lemma contains_entry:
  "cache_contains t k c \<Longrightarrow> \<exists>v e. (k, v, e) \<in> set c \<and> t < e"
  by (auto simp: cache_contains_def split: option.splits dest: map_of_SomeD)

section \<open>The store and the history query\<close>





lemma db_round_trip_fails:
  "db_fault E (db_calls w) = Some e \<Longrightarrow>
   db_round_trip E w = (Inl e, w\<lparr>db_calls := db_calls w + 1\<rparr>)"
  by (simp add: db_round_trip_def)



lemma db_execute_fields [simp]:
  "table (snd (db_execute E params w)) = table w"
  "cache (snd (db_execute E params w)) = cache w"
  "account_calls (snd (db_execute E params w)) = account_calls w"
  "resource_calls (snd (db_execute E params w)) = resource_calls w"
  "balance_calls (snd (db_execute E params w)) = balance_calls w"
  by (simp_all add: db_execute_def db_round_trip_def split: option.splits)



lemma route_valid:
  assumes "\<forall>k. page_q = Some k \<longrightarrow> 1 \<le> k"
    and "\<forall>p. size_q = Some p \<longrightarrow> 1 \<le> p \<and> p \<le> 100"
  shows "recent_requests_route E page_q size_q w =
     get_recent_requests E (case page_q of None \<Rightarrow> 1 | Some k \<Rightarrow> k)
       (case size_q of None \<Rightarrow> 10 | Some p \<Rightarrow> p) w"
  using assms
  by (auto simp: recent_requests_route_def Query_def split: option.splits)

lemma route_invalid:
  assumes "(\<exists>k. page_q = Some k \<and> k < 1) \<or> (\<exists>p. size_q = Some p \<and> (p < 1 \<or> 100 < p))"
  shows "\<exists>ps. recent_requests_route E page_q size_q w = (Inl (RequestValidationError ps), w)"
  using assms
  by (auto simp: recent_requests_route_def Query_def split: option.splits)

lemma get_recent_requests_db_calls:
  "db_calls w < db_calls (snd (get_recent_requests E k p w))"
  by (auto simp: get_recent_requests_def db_round_trip_def db_execute_def
        internal_server_error_def Let_def split: option.splits)

section \<open>The lookup endpoint\<close>

lemma map_of_replaced:
  "map_of (filter (\<lambda>e. fst e \<noteq> k) c @ [(k, x)]) k = Some x"
proof -
  have "map_of (filter (\<lambda>e. fst e \<noteq> k) c) k = None"
    by (induction c) auto
  then show ?thesis by (simp add: map_add_def)
qed

lemma setitem_lookup:
  "map_of (cache_setitem t k v c) k = Some (v, t + ttl)"
  by (simp add: cache_setitem_def Let_def map_of_replaced del: map_of_append)

lemma setitem_contains:
  "cache_contains t' k (cache_setitem t k v c) \<longleftrightarrow> t' < t + ttl"
  by (simp add: cache_contains_def setitem_lookup)

lemma getitem_hit:
  assumes "map_of c k = Some (v, e)" "t < e"
  shows "cache_getitem t k c = (Inr v, move_to_end k c)"
  using assms by (simp add: cache_getitem_def)

lemma cached_hit:
  assumes "map_of (cache w) a = Some (v, e)" "now w < e"
  shows "cached_or_fetched E a w =
           (Inr v, (logger INFO (''Cache hit for address: '' @ a) w)\<lparr>cache := move_to_end a (cache w)\<rparr>)"
  using assms by (simp add: cached_or_fetched_def cache_contains_def Let_def getitem_hit)

lemma cached_miss:
  assumes "\<not> cache_contains (now w) a (cache w)" "get_address_info E a w = (Inr i, w1)"
  shows "cached_or_fetched E a w =
           (Inr i, logger INFO (''Cache updated for address: '' @ a)
                     (w1\<lparr>cache := cache_setitem (now w1) a i (cache w1)\<rparr>))"
  using assms by (simp add: cached_or_fetched_def)

lemma cached_miss_fails:
  assumes "\<not> cache_contains (now w) a (cache w)" "get_address_info E a w = (Inl e, w1)"
  shows "cached_or_fetched E a w = (Inl e, w1)"
  using assms by (simp add: cached_or_fetched_def)

lemma get_address_info_result:
  assumes "get_address_info E a w = (r, w1)"
  shows "db_calls w1 = db_calls w" "cache w1 = cache w" "table w1 = table w"
    "now w \<le> now w1" "account_calls w \<le> account_calls w1"
    "resource_calls w \<le> resource_calls w1" "balance_calls w \<le> balance_calls w1"
  using get_address_info_frame[of w E a] assms by (simp_all add: only_remote_def)

text \<open>Lines 64-70 leave the database alone.\<close>

lemma cached_or_fetched_store:
  assumes "cached_or_fetched E a w = (r, w1)"
  shows "db_calls w1 = db_calls w" "table w1 = table w"
proof -
  obtain rg wg where g: "get_address_info E a w = (rg, wg)"
    by (cases "get_address_info E a w")
  note f = get_address_info_result[OF g]
  from assms g f show "db_calls w1 = db_calls w" "table w1 = table w"
    by (auto simp: cached_or_fetched_def Let_def split: if_splits sum.splits prod.splits)
qed

lemma db_round_trip_fields [simp]:
  "db_calls (snd (db_round_trip E w)) = db_calls w + 1"
  "table (snd (db_round_trip E w)) = table w"
  "cache (snd (db_round_trip E w)) = cache w"
  "account_calls (snd (db_round_trip E w)) = account_calls w"
  "resource_calls (snd (db_round_trip E w)) = resource_calls w"
  "balance_calls (snd (db_round_trip E w)) = balance_calls w"
  by (simp_all add: db_round_trip_def split: option.splits)

lemma persist_cases:
  "persist_and_respond E a i w = (r, w') \<Longrightarrow>
     (\<not> storable i \<and> r = Inl integer_overflow \<and> table w' = table w) \<or>
     (\<exists>e. storable i \<and> db_fault E (db_calls w) = Some e \<and> r = Inl e \<and> table w' = table w) \<or>
     (\<exists>e row. storable i \<and> db_fault E (db_calls w) = None \<and>
        db_fault E (db_calls w + 1) = Some e \<and> r = Inl e \<and>
        table w' = table w @ [row] \<and> address row = a \<and> bandwidth row = bandwidth i \<and>
        energy row = energy i \<and> balance row = as_float E (balance i)) \<or>
     (\<exists>row. storable i \<and> db_fault E (db_calls w) = None \<and> db_fault E (db_calls w + 1) = None \<and>
        r = Inr \<lparr>bandwidth = bandwidth i, energy = energy i, balance = balance i, address = a\<rparr> \<and>
        table w' = table w @ [row] \<and> address row = a \<and> bandwidth row = bandwidth i \<and>
        energy row = energy i \<and> balance row = as_float E (balance i))"
  by (auto simp: persist_and_respond_def db_commit_def db_refresh_def db_execute_def
        db_round_trip_def storable_def Let_def split: option.splits if_splits)

lemma persist_remote:
  "persist_and_respond E a i w = (r, w') \<Longrightarrow>
     account_calls w' = account_calls w \<and> resource_calls w' = resource_calls w \<and>
     balance_calls w' = balance_calls w \<and> cache w' = cache w"
  by (auto simp: persist_and_respond_def db_commit_def db_refresh_def db_execute_def
        db_round_trip_def Let_def split: option.splits if_splits)

lemma except_clauses_fields [simp]:
  "table (snd (except_clauses a rw)) = table (snd rw)"
  "cache (snd (except_clauses a rw)) = cache (snd rw)"
  "db_calls (snd (except_clauses a rw)) = db_calls (snd rw)"
  "account_calls (snd (except_clauses a rw)) = account_calls (snd rw)"
  "resource_calls (snd (except_clauses a rw)) = resource_calls (snd rw)"
  "balance_calls (snd (except_clauses a rw)) = balance_calls (snd rw)"
  by (auto simp: except_clauses_def split: prod.splits sum.splits)

lemma except_clauses_Inr [simp]: "except_clauses a (Inr r, w) = (Inr r, w)"
  by (simp add: except_clauses_def)

lemma except_clauses_Inr_iff: "fst (except_clauses a rw) = Inr r \<longleftrightarrow> fst rw = Inr r"
  by (auto simp: except_clauses_def split: prod.splits sum.splits)

lemma except_clauses_Inl:
  "fst rw = Inl e \<Longrightarrow> \<exists>d. fst (except_clauses a rw) = Inl (HTTPException 500 d)"
  by (auto simp: except_clauses_def split: prod.splits sum.splits)


lemma endpoint_valid:
  assumes "validate_tron_address E a w = (Inr True, w1)"
  shows "get_address_info_endpoint E a w = except_clauses a (try_block E a w1)"
  using assms by (simp add: get_address_info_endpoint_def)

lemma try_block_after:
  assumes "cached_or_fetched E a w = (Inr i, w1)"
  shows "try_block E a w = persist_and_respond E a i w1"
  using assms by (simp add: try_block_def)

lemma first_lookup_cache:
  assumes "validate_tron_address E a w0 = (Inr True, wa)"
    and "\<not> cache_contains (now wa) a (cache wa)"
    and "get_address_info E a wa = (Inr i, wb)"
  shows "cache (snd (get_address_info_endpoint E a w0)) = cache_setitem (now wb) a i (cache wb)"
proof -
  let ?w1 = "logger INFO (''Cache updated for address: '' @ a)
               (wb\<lparr>cache := cache_setitem (now wb) a i (cache wb)\<rparr>)"
  have t: "try_block E a wa = persist_and_respond E a i ?w1"
    using cached_miss[OF assms(2,3)] by (rule try_block_after)
  obtain r w' where p: "persist_and_respond E a i ?w1 = (r, w')"
    by (cases "persist_and_respond E a i ?w1")
  from persist_remote[OF p] have "cache w' = cache_setitem (now wb) a i (cache wb)" by simp
  with t p show ?thesis by (simp add: endpoint_valid[OF assms(1)])
qed

lemma first_lookup_written:
  assumes "validate_tron_address E a w0 = (Inr True, wa)"
    and "\<not> cache_contains (now wa) a (cache wa)"
    and "get_address_info E a wa = (Inr i, wb)"
  shows "cache (snd (get_address_info_endpoint E a w0)) = cache_setitem (now wb) a i (cache wa) \<and>
         resource_calls w0 < resource_calls (snd (get_address_info_endpoint E a w0))"
proof -
  note g = get_address_info_result[OF assms(3)]
  note v1 = validate_result[OF assms(1)]
  have c1: "cache (snd (get_address_info_endpoint E a w0)) = cache_setitem (now wb) a i (cache wa)"
    using first_lookup_cache[OF assms] g(2) by simp
  let ?w1 = "logger INFO (''Cache updated for address: '' @ a)
               (wb\<lparr>cache := cache_setitem (now wb) a i (cache wb)\<rparr>)"
  have t: "try_block E a wa = persist_and_respond E a i ?w1"
    using cached_miss[OF assms(2,3)] by (rule try_block_after)
  obtain r w' where p: "persist_and_respond E a i ?w1 = (r, w')"
    by (cases "persist_and_respond E a i ?w1")
  from persist_remote[OF p] have "resource_calls w' = resource_calls wb" by simp
  moreover have "resource_calls wa < resource_calls wb"
    using get_address_info_returns[OF assms(3)] by blast
  ultimately have "resource_calls w0 < resource_calls (snd (get_address_info_endpoint E a w0))"
    using t p v1(1) by (simp add: endpoint_valid[OF assms(1)])
  with c1 show ?thesis by simp
qed

lemma lookup_hit:
  assumes second: "validate_tron_address E a w2 = (Inr True, w3)"
    and present: "map_of (cache w2) a = Some (j, e)" and fresh: "now w3 < e"
  shows "resource_calls (snd (get_address_info_endpoint E a w2)) = resource_calls w2 \<and>
      balance_calls (snd (get_address_info_endpoint E a w2)) = balance_calls w2 \<and>
      account_calls (snd (get_address_info_endpoint E a w2)) = account_calls w3 \<and>
      (\<forall>resp. fst (get_address_info_endpoint E a w2) = Inr resp \<longrightarrow>
         resp = \<lparr>bandwidth = bandwidth j, energy = energy j, balance = balance j,
                 address = a\<rparr>) \<and>
      (storable j \<and> db_fault E (db_calls w2) = None \<and>
       db_fault E (db_calls w2 + 1) = None \<longrightarrow>
         fst (get_address_info_endpoint E a w2) =
           Inr \<lparr>bandwidth = bandwidth j, energy = energy j, balance = balance j,
                address = a\<rparr>)"
proof -
  note v2 = validate_result[OF second]
  have look: "map_of (cache w3) a = Some (j, e)"
    using v2(4) present by simp
  let ?w4 = "(logger INFO (''Cache hit for address: '' @ a) w3)\<lparr>cache := move_to_end a (cache w3)\<rparr>"
  have t: "try_block E a w3 = persist_and_respond E a j ?w4"
    using cached_hit[OF look fresh] by (rule try_block_after)
  obtain r w' where p: "persist_and_respond E a j ?w4 = (r, w')"
    by (cases "persist_and_respond E a j ?w4")
  have e: "get_address_info_endpoint E a w2 = except_clauses a (r, w')"
    using t p by (simp add: endpoint_valid[OF second])
  have counters: "resource_calls (snd (get_address_info_endpoint E a w2)) = resource_calls w2"
    "balance_calls (snd (get_address_info_endpoint E a w2)) = balance_calls w2"
    "account_calls (snd (get_address_info_endpoint E a w2)) = account_calls w3"
    using persist_remote[OF p] v2 by (simp_all add: e)
  have d: "db_calls ?w4 = db_calls w2" using v2 by simp
  have resp: "\<forall>resp. fst (get_address_info_endpoint E a w2) = Inr resp \<longrightarrow>
            resp = \<lparr>bandwidth = bandwidth j, energy = energy j, balance = balance j,
                    address = a\<rparr>"
    using persist_cases[OF p] by (auto simp: e except_clauses_Inr_iff)
  have ok: "storable j \<and> db_fault E (db_calls w2) = None \<and> db_fault E (db_calls w2 + 1) = None \<longrightarrow>
            fst (get_address_info_endpoint E a w2) =
              Inr \<lparr>bandwidth = bandwidth j, energy = energy j, balance = balance j,
                   address = a\<rparr>"
    using persist_cases[OF p] d by (auto simp: e)
  from counters resp ok show ?thesis by blast
qed

lemma db_commit_Inl:
  "db_commit E a i w = (Inl e, w') \<Longrightarrow> table w' = table w"
  by (auto simp: db_commit_def db_execute_def db_round_trip_def Let_def
        split: option.splits if_splits)

lemma db_commit_Inr:
  assumes "db_commit E a i w = (Inr row, w')"
  shows "table w' = table w @ [row]" "address row = a" "bandwidth row = bandwidth i"
    "energy row = energy i" "balance row = as_float E (balance i)"
  using assms
  by (auto simp: db_commit_def db_execute_def db_round_trip_def Let_def
        split: option.splits if_splits)

lemma db_refresh_table: "table (snd (db_refresh E w)) = table w"
  by (simp add: db_refresh_def)


section \<open>The retry policy\<close>

lemma wait_values [simp]:
  "wait_exponential (Suc 0) (Suc 0) 10 (Suc 0) = Suc 0"
  "wait_exponential (Suc 0) (Suc 0) 10 2 = 2"
  "wait_exponential (Suc 0) (Suc 0) 10 (Suc (Suc 0)) = Suc (Suc 0)"
  by (simp_all add: wait_exponential_def)





lemma validate_body_ok:
  "get_account E (account_calls w) a = Inr u \<Longrightarrow>
   validate_tron_address_body E a w = (Inr True, w\<lparr>account_calls := account_calls w + 1\<rparr>)"
  by (simp add: validate_tron_address_body_def)



lemma validate_first_try:
  "get_account E (account_calls w) a = Inr u \<Longrightarrow>
   validate_tron_address E a w = (Inr True, w\<lparr>account_calls := account_calls w + 1\<rparr>)"
  by (simp add: validate_tron_address_def retry_def retry_loop_returns validate_body_ok)


lemma third_validation_fields [simp]:
  "account_calls (third_validation w) = account_calls w + 3"
  "sleeps (third_validation w) = sleeps w @ [1, 2]"
  by (simp_all add: third_validation_def)











lemma body_ok:
  assumes "get_account E (account_calls w) a = Inr u"
    and "get_account_resource E (resource_calls w) a = Inr resource"
    and "get_account_balance E (balance_calls w) a = Inr bal"
  shows "get_address_info_body E a w =
           (Inr \<lparr>bandwidth = dict_get resource ''NetLimit'' 0,
                 energy = dict_get resource ''EnergyLimit'' 0, balance = bal\<rparr>,
            logger INFO (''Successfully retrieved info for address: '' @ a)
              (w\<lparr>account_calls := account_calls w + 1,
                 resource_calls := resource_calls w + 1,
                 balance_calls := balance_calls w + 1\<rparr>))"
  using assms
  by (simp add: get_address_info_body_def validate_first_try call_resource_def call_balance_def)


lemma fetch_failed_fields [simp]:
  "account_calls (fetch_failed a e w) = account_calls w + 1"
  "resource_calls (fetch_failed a e w) = resource_calls w + 1"
  "balance_calls (fetch_failed a e w) = balance_calls w"
  "sleeps (fetch_failed a e w) = sleeps w"
  by (simp_all add: fetch_failed_def)




section \<open>A crowded cache\<close>

lemma get_address_info_up:
  "get_address_info ledger_up a w =
     (Inr info_up,
      logger INFO (''Successfully retrieved info for address: '' @ a)
        (w\<lparr>account_calls := account_calls w + 1, resource_calls := resource_calls w + 1,
           balance_calls := balance_calls w + 1\<rparr>))"
proof -
  have "get_address_info_body ledger_up a w =
     (Inr info_up,
      logger INFO (''Successfully retrieved info for address: '' @ a)
        (w\<lparr>account_calls := account_calls w + 1, resource_calls := resource_calls w + 1,
           balance_calls := balance_calls w + 1\<rparr>))"
    using body_ok[of ledger_up w a "()" "Map.empty(''NetLimit'' \<mapsto> 600)" "1 / 4"]
    by (simp add: ledger_up_def info_up_def dict_get_def)
  then show ?thesis
    by (simp add: get_address_info_def retry_def retry_loop_returns)
qed

lemma storable_up: "storable info_up"
  by (simp add: storable_def info_up_def fits_integer_def)

lemma lookup_up_miss:
  assumes "\<not> cache_contains (now w) a (cache w)"
  shows "fst (get_address_info_endpoint ledger_up a w) =
           Inr \<lparr>bandwidth = 600, energy = 0, balance = 1 / 4, address = a\<rparr>"
    and "cache (snd (get_address_info_endpoint ledger_up a w)) =
           cache_setitem (now w) a info_up (cache w)"
    and "now (snd (get_address_info_endpoint ledger_up a w)) = now w"
    and "resource_calls (snd (get_address_info_endpoint ledger_up a w)) = resource_calls w + 1"
proof -
  let ?w1 = "w\<lparr>account_calls := account_calls w + 1\<rparr>"
  have v: "validate_tron_address ledger_up a w = (Inr True, ?w1)"
    by (rule validate_first_try[where u = "()"]) (simp add: ledger_up_def)
  have m: "\<not> cache_contains (now ?w1) a (cache ?w1)" using assms by simp
  let ?wb = "logger INFO (''Successfully retrieved info for address: '' @ a)
        (?w1\<lparr>account_calls := account_calls ?w1 + 1, resource_calls := resource_calls ?w1 + 1,
           balance_calls := balance_calls ?w1 + 1\<rparr>)"
  have g: "get_address_info ledger_up a ?w1 = (Inr info_up, ?wb)"
    by (rule get_address_info_up)
  let ?w2 = "logger INFO (''Cache updated for address: '' @ a)
               (?wb\<lparr>cache := cache_setitem (now ?wb) a info_up (cache ?wb)\<rparr>)"
  have t: "try_block ledger_up a ?w1 = persist_and_respond ledger_up a info_up ?w2"
    using cached_miss[OF m g] by (rule try_block_after)
  obtain r w' where p: "persist_and_respond ledger_up a info_up ?w2 = (r, w')"
    by (cases "persist_and_respond ledger_up a info_up ?w2")
  have e: "get_address_info_endpoint ledger_up a w = except_clauses a (r, w')"
    using t p by (simp add: endpoint_valid[OF v])
  have n: "now w' = now ?w2"
    using p by (auto simp: persist_and_respond_def db_commit_def db_refresh_def db_execute_def
        db_round_trip_def Let_def split: option.splits if_splits)
  have f: "db_fault ledger_up (db_calls ?w2) = None" "db_fault ledger_up (db_calls ?w2 + 1) = None"
    by (simp_all add: ledger_up_def)
  from persist_cases[OF p] f storable_up
  have r: "r = Inr \<lparr>bandwidth = bandwidth info_up, energy = energy info_up,
                    balance = balance info_up, address = a\<rparr>"
    by auto
  show "fst (get_address_info_endpoint ledger_up a w) =
           Inr \<lparr>bandwidth = 600, energy = 0, balance = 1 / 4, address = a\<rparr>"
    using r by (simp add: e info_up_def)
  show "cache (snd (get_address_info_endpoint ledger_up a w)) =
           cache_setitem (now w) a info_up (cache w)"
    using persist_remote[OF p] by (simp add: e)
  show "now (snd (get_address_info_endpoint ledger_up a w)) = now w"
    using n r by (simp add: e)
  show "resource_calls (snd (get_address_info_endpoint ledger_up a w)) = resource_calls w + 1"
    using persist_remote[OF p] by (simp add: e)
qed

lemma make_room_short: "length c < maxsize \<Longrightarrow> make_room c = c"
  by (cases c) simp_all

lemma make_room_full: "length c = maxsize \<Longrightarrow> make_room c = tl c"
  by (cases c) (simp_all add: maxsize_def make_room_short)

lemma setitem_new_key:
  assumes "k \<notin> fst ` set c" "\<forall>(k', v', e) \<in> set c. t < e" "length c \<le> maxsize"
  shows "cache_setitem t k v c =
           (if length c < maxsize then c else tl c) @ [(k, v, t + ttl)]"
proof -
  have x: "expire t c = c" using assms(2) by (auto simp: expire_def intro: filter_True)
  have f: "filter (\<lambda>e. fst e \<noteq> k) d = d" if "set d \<subseteq> set c" for d
    using that assms(1) by (intro filter_True) force
  have "set (tl c) \<subseteq> set c" by (cases c) auto
  with assms(1,3) x f[of c] f[of "tl c"] show ?thesis
    by (auto simp: cache_setitem_def Let_def make_room_short make_room_full)
qed


lemma lookups_up:
  assumes "distinct as" "set as \<inter> fst ` set (cache w) = {}"
    and "\<forall>(k, v, e) \<in> set (cache w). now w < e" "length (cache w) \<le> maxsize"
  shows "cache (lookups ledger_up as w) =
           drop (length (cache w) + length as - maxsize)
             (cache w @ map (\<lambda>a. (a, info_up, now w + ttl)) as) \<and>
         now (lookups ledger_up as w) = now w \<and>
         resource_calls (lookups ledger_up as w) = resource_calls w + length as"
  using assms
proof (induction as arbitrary: w)
  case Nil
  then show ?case by simp
next
  case (Cons a as)
  let ?c = "cache w"
  let ?x = "(a, info_up, now w + ttl)"
  let ?w1 = "snd (get_address_info_endpoint ledger_up a w)"
  let ?c1 = "(if length ?c < maxsize then ?c else tl ?c) @ [?x]"
  have a: "a \<notin> fst ` set ?c" using Cons.prems(2) by auto
  then have "map_of ?c a = None" by (simp add: map_of_eq_None_iff)
  then have miss: "\<not> cache_contains (now w) a ?c" by (simp add: cache_contains_def)
  note step = lookup_up_miss[OF miss]
  have c1: "cache ?w1 = ?c1"
    using step(2) setitem_new_key[OF a Cons.prems(3,4)] by simp
  have sub: "set (tl ?c) \<subseteq> set ?c" by (cases ?c) auto
  have p1: "distinct as" using Cons.prems(1) by simp
  have p2: "set as \<inter> fst ` set (cache ?w1) = {}"
    using Cons.prems(1,2) sub unfolding c1 by (auto split: if_splits)
  have p3: "\<forall>(k, v, e) \<in> set (cache ?w1). now ?w1 < e"
    using Cons.prems(3) sub unfolding c1 step(3) by (auto simp: ttl_def split: if_splits)
  have p4: "length (cache ?w1) \<le> maxsize"
    using Cons.prems(4) unfolding c1 by (cases ?c) (auto simp: maxsize_def)
  note ih = Cons.IH[OF p1 p2 p3 p4]
  have shape: "drop (length ?c1 + length as - maxsize)
                 (?c1 @ map (\<lambda>b. (b, info_up, now w + ttl)) as) =
               drop (length ?c + length (a # as) - maxsize)
                 (?c @ map (\<lambda>b. (b, info_up, now w + ttl)) (a # as))"
  proof (cases "length ?c < maxsize")
    case True
    then show ?thesis by simp
  next
    case False
    with Cons.prems(4) have full: "length ?c = maxsize" by simp
    then obtain y ys where c: "?c = y # ys" by (cases ?c) (auto simp: maxsize_def)
    let ?rest = "map (\<lambda>b. (b, info_up, now w + ttl)) as"
    have l1: "length ?c1 + length as - maxsize = length as"
      using full c by simp
    have l2: "length ?c + length (a # as) - maxsize = Suc (length as)"
      using full by simp
    have "drop (length as) (?c1 @ ?rest) = drop (length as) (ys @ ?x # ?rest)"
      using full c by simp
    moreover have "drop (Suc (length as)) (?c @ map (\<lambda>b. (b, info_up, now w + ttl)) (a # as)) =
                   drop (length as) (ys @ ?x # ?rest)"
      unfolding c by (simp del: drop_append)
    ultimately show ?thesis unfolding l1 l2 by simp
  qed
  from ih show ?case
    unfolding lookups.simps c1[symmetric] step(3) step(4)
    using shape c1 by simp
qed

lemma other_addresses_facts:
  "distinct other_addresses" "length other_addresses = 100" "''TX'' \<notin> set other_addresses"
  by (auto simp: other_addresses_def distinct_map inj_on_def)

lemma first_lookup_up:
  "fst (get_address_info_endpoint ledger_up ''TX'' world0) =
     Inr \<lparr>bandwidth = 600, energy = 0, balance = 1 / 4, address = ''TX''\<rparr>"
  "cache (snd (get_address_info_endpoint ledger_up ''TX'' world0)) = [(''TX'', info_up, 300)]"
  "now (snd (get_address_info_endpoint ledger_up ''TX'' world0)) = 0"
  "resource_calls (snd (get_address_info_endpoint ledger_up ''TX'' world0)) = 1"
proof -
  have m: "\<not> cache_contains (now world0) ''TX'' (cache world0)"
    by (simp add: world0_def cache_contains_def)
  note s = lookup_up_miss[OF m]
  show "fst (get_address_info_endpoint ledger_up ''TX'' world0) =
     Inr \<lparr>bandwidth = 600, energy = 0, balance = 1 / 4, address = ''TX''\<rparr>"
    by (rule s(1))
  show "cache (snd (get_address_info_endpoint ledger_up ''TX'' world0)) = [(''TX'', info_up, 300)]"
    unfolding s(2) by (simp add: world0_def cache_setitem_def expire_def ttl_def)
  show "now (snd (get_address_info_endpoint ledger_up ''TX'' world0)) = 0"
    unfolding s(3) by (simp add: world0_def)
  show "resource_calls (snd (get_address_info_endpoint ledger_up ''TX'' world0)) = 1"
    unfolding s(4) by (simp add: world0_def)
qed

lemma world_crowded_facts:
  "cache world_crowded = map (\<lambda>a. (a, info_up, 300)) other_addresses"
  "now world_crowded = 0" "resource_calls world_crowded = 101"
proof -
  let ?w1 = "snd (get_address_info_endpoint ledger_up ''TX'' world0)"
  have "cache (lookups ledger_up other_addresses ?w1) =
           drop (length (cache ?w1) + length other_addresses - maxsize)
             (cache ?w1 @ map (\<lambda>a. (a, info_up, now ?w1 + ttl)) other_addresses) \<and>
         now (lookups ledger_up other_addresses ?w1) = now ?w1 \<and>
         resource_calls (lookups ledger_up other_addresses ?w1) =
           resource_calls ?w1 + length other_addresses"
    by (rule lookups_up)
       (use other_addresses_facts in \<open>simp_all add: first_lookup_up maxsize_def\<close>)
  then show "cache world_crowded = map (\<lambda>a. (a, info_up, 300)) other_addresses"
    "now world_crowded = 0" "resource_calls world_crowded = 101"
    by (simp_all add: world_crowded_def first_lookup_up other_addresses_facts maxsize_def ttl_def)
qed

lemma world_crowded_miss: "\<not> cache_contains (now world_crowded) ''TX'' (cache world_crowded)"
proof -
  have "''TX'' \<notin> fst ` set (cache world_crowded)"
    using other_addresses_facts(3) by (auto simp: world_crowded_facts(1))
  then have "map_of (cache world_crowded) ''TX'' = None"
    by (simp add: map_of_eq_None_iff)
  then show ?thesis by (simp add: cache_contains_def)
qed


section \<open>The claims\<close>

subsection \<open>C1: an address the validator rejects\<close>

text \<open>
  C1. When the validator returns \<open>False\<close> for the address, \<^verbatim>\<open>POST /address_info\<close> raises the
  400 with detail \<^verbatim>\<open>Invalid Tron address\<close>, and the state it leaves is the one the
  validator left: no resource or balance call was made, the database was not called, and
  the table and the cache are as before.
\<close>

theorem invalid_address_rejected:
  assumes "validate_tron_address E a w = (Inr False, w1)"
  shows "get_address_info_endpoint E a w =
           (Inl (HTTPException 400 ''Invalid Tron address''), w1) \<and>
         resource_calls w1 = resource_calls w \<and> balance_calls w1 = balance_calls w \<and>
         db_calls w1 = db_calls w \<and> table w1 = table w \<and> cache w1 = cache w"
  using assms validate_result[OF assms] by (simp add: get_address_info_endpoint_def)

theorem invalid_address_rejected_witness:
  "validate_tron_address ledger_unknown ''invalid_address'' world0 =
     (Inr False, world0\<lparr>account_calls := 1,
        logs := [(WARNING, ''Invalid Tron address attempted: invalid_address'')]\<rparr>) \<and>
   get_address_info_endpoint ledger_unknown ''invalid_address'' world0 =
     (Inl (HTTPException 400 ''Invalid Tron address''),
      world0\<lparr>account_calls := 1,
        logs := [(WARNING, ''Invalid Tron address attempted: invalid_address'')]\<rparr>)"
proof -
  have h: "validate_tron_address ledger_unknown ''invalid_address'' world0 =
     (Inr False, world0\<lparr>account_calls := 1,
        logs := [(WARNING, ''Invalid Tron address attempted: invalid_address'')]\<rparr>)"
    by code_simp
  show ?thesis using h invalid_address_rejected[OF h] by simp
qed

subsection \<open>C7: the fetched triple\<close>



subsection \<open>C8: the fetch validates first\<close>

text \<open>
  C8. \<^verbatim>\<open>get_address_info\<close> validates the address before any fetch call: when the validator
  returns \<open>False\<close> it raises \<^verbatim>\<open>ValueError("Invalid Tron address")\<close> from its first attempt, in
  the state the validator left (the retry policy makes no second attempt and does not
  sleep), and no resource or balance call has been made.
\<close>

theorem get_address_info_invalid:
  assumes "validate_tron_address E a w = (Inr False, w1)"
  shows "get_address_info E a w = (Inl (ValueError ''Invalid Tron address''), w1) \<and>
         resource_calls w1 = resource_calls w \<and> balance_calls w1 = balance_calls w"
proof -
  have "get_address_info_body E a w = (Inl (ValueError ''Invalid Tron address''), w1)"
    using assms by (simp add: get_address_info_body_def)
  then have "get_address_info E a w = (Inl (ValueError ''Invalid Tron address''), w1)"
    by (simp add: get_address_info_def retry_def retry_loop_raises)
  then show ?thesis using validate_result[OF assms] by simp
qed

theorem get_address_info_invalid_witness:
  "validate_tron_address ledger_unknown ''invalid_address'' world0 =
     (Inr False, world0\<lparr>account_calls := 1,
        logs := [(WARNING, ''Invalid Tron address attempted: invalid_address'')]\<rparr>) \<and>
   get_address_info ledger_unknown ''invalid_address'' world0 =
     (Inl (ValueError ''Invalid Tron address''),
      world0\<lparr>account_calls := 1,
        logs := [(WARNING, ''Invalid Tron address attempted: invalid_address'')]\<rparr>)"
proof -
  have h: "validate_tron_address ledger_unknown ''invalid_address'' world0 =
     (Inr False, world0\<lparr>account_calls := 1,
        logs := [(WARNING, ''Invalid Tron address attempted: invalid_address'')]\<rparr>)"
    by code_simp
  show ?thesis using h get_address_info_invalid[OF h] by simp
qed

subsection \<open>C4: pagination\<close>




subsection \<open>C9: the cache stays bounded\<close>

text \<open>
  C9. After every sequence of cache operations, started from the empty cache, the cache
  holds at most 100 entries, no address twice, and every entry that is present (not
  expired) at a time \<open>t\<close> was set by an operation of the sequence less than 300 seconds
  before \<open>t\<close>.
\<close>

theorem cache_bounded:
  "length (run_ops ops []) \<le> 100 \<and> distinct (map fst (run_ops ops [])) \<and>
   (\<forall>t k. cache_contains t k (run_ops ops []) \<longrightarrow>
      (\<exists>v s. (k, v, s + 300) \<in> set (run_ops ops []) \<and> (s, Set k v) \<in> set ops \<and> t < s + 300))"
proof -
  have "cache_inv ({} \<union> set ops) (run_ops ops [])"
    by (rule run_ops_inv) (simp add: cache_inv_def set_by_def)
  then have inv: "cache_inv (set ops) (run_ops ops [])" by simp
  have "\<exists>v s. (k, v, s + 300) \<in> set (run_ops ops []) \<and> (s, Set k v) \<in> set ops \<and> t < s + 300"
    if "cache_contains t k (run_ops ops [])" for t k
  proof -
    from contains_entry[OF that] obtain v e where e: "(k, v, e) \<in> set (run_ops ops [])" "t < e"
      by blast
    with inv obtain s where "e = s + ttl" "(s, Set k v) \<in> set ops"
      unfolding cache_inv_def set_by_def by fastforce
    with e show ?thesis by (auto simp: ttl_def)
  qed
  with inv show ?thesis by (auto simp: cache_inv_def maxsize_def)
qed

theorem cache_bounded_witness:
  "cache_contains 20 ''a'' (run_ops [(0, Set ''a'' (7::nat)), (10, Get ''a'')] []) \<and>
   (\<exists>v s. (''a'', v, s + 300) \<in> set (run_ops [(0, Set ''a'' (7::nat)), (10, Get ''a'')] []) \<and>
      (s, Set ''a'' v) \<in> set [(0, Set ''a'' (7::nat)), (10, Get ''a'')] \<and> 20 < s + 300)"
proof -
  have h: "cache_contains 20 ''a'' (run_ops [(0, Set ''a'' (7::nat)), (10, Get ''a'')] [])"
    by code_simp
  show ?thesis
    using h cache_bounded[of "[(0, Set ''a'' (7::nat)), (10, Get ''a'')]"] by blast
qed

subsection \<open>C10: the query parameters\<close>

text \<open>
  C10. A parameter of \<^verbatim>\<open>GET /recent_requests\<close> that is left out takes its default (page 1,
  page size 10) and the handler body runs with it; when a supplied page is below 1 or a
  supplied page size is outside \<open>[1, 100]\<close> the request is rejected in an unchanged state,
  whereas the handler body, whenever it runs, calls the database.
\<close>

theorem recent_requests_parameters:
  "((\<forall>k. page_q = Some k \<longrightarrow> 1 \<le> k) \<and> (\<forall>p. size_q = Some p \<longrightarrow> 1 \<le> p \<and> p \<le> 100) \<longrightarrow>
      recent_requests_route E page_q size_q w =
        get_recent_requests E (case page_q of None \<Rightarrow> 1 | Some k \<Rightarrow> k)
          (case size_q of None \<Rightarrow> 10 | Some p \<Rightarrow> p) w) \<and>
   ((\<exists>k. page_q = Some k \<and> k < 1) \<or> (\<exists>p. size_q = Some p \<and> (p < 1 \<or> 100 < p)) \<longrightarrow>
      (\<exists>ps. recent_requests_route E page_q size_q w = (Inl (RequestValidationError ps), w))) \<and>
   db_calls w < db_calls (snd (get_recent_requests E k p w))"
  using route_valid[of page_q size_q E w] route_invalid[of page_q size_q E w]
    get_recent_requests_db_calls[of w E k p]
  by blast

theorem recent_requests_parameters_witness:
  "recent_requests_route ledger_up None None world3 = get_recent_requests ledger_up 1 10 world3 \<and>
   recent_requests_route ledger_up (Some 0) (Some 101) world3 =
     (Inl (RequestValidationError [''page'', ''page_size'']), world3)"
proof -
  have a: "recent_requests_route ledger_up None None world3 =
           get_recent_requests ledger_up 1 10 world3"
    using recent_requests_parameters[of None None ledger_up world3] by simp
  have "\<exists>ps. recent_requests_route ledger_up (Some 0) (Some 101) world3 =
          (Inl (RequestValidationError ps), world3)"
    using recent_requests_parameters[of "Some 0" "Some 101" ledger_up world3] by simp
  then have b: "recent_requests_route ledger_up (Some 0) (Some 101) world3 =
     (Inl (RequestValidationError [''page'', ''page_size'']), world3)"
    by (simp add: recent_requests_route_def Query_def)
  from a b show ?thesis by simp
qed

subsection \<open>C3: a cache hit avoids the fetch\<close>

text \<open>
  C3 as the spec states it fails: the cache is one bounded cache for all addresses (main.py,
  line 26). A lookup of \<^verbatim>\<open>TX\<close> fetches and caches the value; lookups of 100 other
  addresses follow, all at the same time on the clock; the entry of \<^verbatim>\<open>TX\<close> has been evicted,
  and a second lookup of \<^verbatim>\<open>TX\<close>, well within the 300 seconds, fetches again.
\<close>

theorem second_lookup_fetches_again:
  "fst (get_address_info_endpoint ledger_up ''TX'' world0) =
     Inr \<lparr>bandwidth = 600, energy = 0, balance = 1 / 4, address = ''TX''\<rparr> \<and>
   resource_calls (snd (get_address_info_endpoint ledger_up ''TX'' world0)) = 1 \<and>
   now (snd (get_address_info_endpoint ledger_up ''TX'' world0)) = 0 \<and>
   now world_crowded = 0 \<and>
   resource_calls world_crowded = 101 \<and>
   fst (get_address_info_endpoint ledger_up ''TX'' world_crowded) =
     Inr \<lparr>bandwidth = 600, energy = 0, balance = 1 / 4, address = ''TX''\<rparr> \<and>
   resource_calls (snd (get_address_info_endpoint ledger_up ''TX'' world_crowded)) = 102"
  using first_lookup_up(1,3,4) world_crowded_facts(2,3)
    lookup_up_miss(1,4)[OF world_crowded_miss]
  by simp

text \<open>
  C3, as the code has it. A lookup that misses the cache and fetches successfully writes
  the fetched triple into the cache, where it expires \<open>ttl\<close> later. A lookup that finds the
  entry of its address in the cache, not expired when its validation has ended, makes no
  resource and no balance call, the only \<^verbatim>\<open>get_account\<close> calls it makes are the
  validator's, and its response, if it responds (which it does when the database
  answers), carries the cached triple. This is so for a second lookup that starts with
  the cache the first lookup left and whose validation ends less than \<open>ttl\<close> after the
  value was cached.
\<close>

theorem cache_hit_avoids_fetch:
  "(validate_tron_address E a w0 = (Inr True, wa) \<and>
    \<not> cache_contains (now wa) a (cache wa) \<and>
    get_address_info E a wa = (Inr i, wb) \<longrightarrow>
      cache (snd (get_address_info_endpoint E a w0)) = cache_setitem (now wb) a i (cache wa) \<and>
      map_of (cache (snd (get_address_info_endpoint E a w0))) a = Some (i, now wb + ttl) \<and>
      resource_calls w0 < resource_calls (snd (get_address_info_endpoint E a w0))) \<and>
   (validate_tron_address E' a w2 = (Inr True, w3) \<and>
    map_of (cache w2) a = Some (j, e) \<and> now w3 < e \<longrightarrow>
      resource_calls (snd (get_address_info_endpoint E' a w2)) = resource_calls w2 \<and>
      balance_calls (snd (get_address_info_endpoint E' a w2)) = balance_calls w2 \<and>
      account_calls (snd (get_address_info_endpoint E' a w2)) = account_calls w3 \<and>
      (\<forall>resp. fst (get_address_info_endpoint E' a w2) = Inr resp \<longrightarrow>
         resp = \<lparr>bandwidth = bandwidth j, energy = energy j, balance = balance j,
                 address = a\<rparr>) \<and>
      (storable j \<and> db_fault E' (db_calls w2) = None \<and>
       db_fault E' (db_calls w2 + 1) = None \<longrightarrow>
         fst (get_address_info_endpoint E' a w2) =
           Inr \<lparr>bandwidth = bandwidth j, energy = energy j, balance = balance j,
                address = a\<rparr>)) \<and>
   (validate_tron_address E a w0 = (Inr True, wa) \<and>
    \<not> cache_contains (now wa) a (cache wa) \<and>
    get_address_info E a wa = (Inr i, wb) \<and>
    cache w2 = cache (snd (get_address_info_endpoint E a w0)) \<and>
    validate_tron_address E' a w2 = (Inr True, w3) \<and> now w3 < now wb + ttl \<longrightarrow>
      resource_calls (snd (get_address_info_endpoint E' a w2)) = resource_calls w2 \<and>
      balance_calls (snd (get_address_info_endpoint E' a w2)) = balance_calls w2 \<and>
      (\<forall>resp. fst (get_address_info_endpoint E' a w2) = Inr resp \<longrightarrow>
         resp = \<lparr>bandwidth = bandwidth i, energy = energy i, balance = balance i,
                 address = a\<rparr>))"
proof -
  have miss: "cache (snd (get_address_info_endpoint E a w0)) =
        cache_setitem (now wb) a i (cache wa) \<and>
      map_of (cache (snd (get_address_info_endpoint E a w0))) a = Some (i, now wb + ttl) \<and>
      resource_calls w0 < resource_calls (snd (get_address_info_endpoint E a w0))"
    if first: "validate_tron_address E a w0 = (Inr True, wa)"
      and m: "\<not> cache_contains (now wa) a (cache wa)"
      and fetched: "get_address_info E a wa = (Inr i, wb)"
    for E a w0 wa i wb
    using first_lookup_written[OF first m fetched] by (simp add: setitem_lookup)
  have hit: "resource_calls (snd (get_address_info_endpoint E' a w2)) = resource_calls w2 \<and>
      balance_calls (snd (get_address_info_endpoint E' a w2)) = balance_calls w2 \<and>
      account_calls (snd (get_address_info_endpoint E' a w2)) = account_calls w3 \<and>
      (\<forall>resp. fst (get_address_info_endpoint E' a w2) = Inr resp \<longrightarrow>
         resp = \<lparr>bandwidth = bandwidth j, energy = energy j, balance = balance j,
                 address = a\<rparr>) \<and>
      (storable j \<and> db_fault E' (db_calls w2) = None \<and>
       db_fault E' (db_calls w2 + 1) = None \<longrightarrow>
         fst (get_address_info_endpoint E' a w2) =
           Inr \<lparr>bandwidth = bandwidth j, energy = energy j, balance = balance j,
                address = a\<rparr>)"
    if second: "validate_tron_address E' a w2 = (Inr True, w3)"
      and present: "map_of (cache w2) a = Some (j, e)" and fresh: "now w3 < e"
    for E' a w2 w3 j e
    by (rule lookup_hit[OF second present fresh])
  have p1: "validate_tron_address E a w0 = (Inr True, wa) \<and>
    \<not> cache_contains (now wa) a (cache wa) \<and>
    get_address_info E a wa = (Inr i, wb) \<longrightarrow>
      cache (snd (get_address_info_endpoint E a w0)) = cache_setitem (now wb) a i (cache wa) \<and>
      map_of (cache (snd (get_address_info_endpoint E a w0))) a = Some (i, now wb + ttl) \<and>
      resource_calls w0 < resource_calls (snd (get_address_info_endpoint E a w0))"
    using miss[of E a w0 wa i wb] by blast
  have p2: "validate_tron_address E' a w2 = (Inr True, w3) \<and>
    map_of (cache w2) a = Some (j, e) \<and> now w3 < e \<longrightarrow>
      resource_calls (snd (get_address_info_endpoint E' a w2)) = resource_calls w2 \<and>
      balance_calls (snd (get_address_info_endpoint E' a w2)) = balance_calls w2 \<and>
      account_calls (snd (get_address_info_endpoint E' a w2)) = account_calls w3 \<and>
      (\<forall>resp. fst (get_address_info_endpoint E' a w2) = Inr resp \<longrightarrow>
         resp = \<lparr>bandwidth = bandwidth j, energy = energy j, balance = balance j,
                 address = a\<rparr>) \<and>
      (storable j \<and> db_fault E' (db_calls w2) = None \<and>
       db_fault E' (db_calls w2 + 1) = None \<longrightarrow>
         fst (get_address_info_endpoint E' a w2) =
           Inr \<lparr>bandwidth = bandwidth j, energy = energy j, balance = balance j,
                address = a\<rparr>)"
    using hit[of E' a w2 w3 j e] by (intro impI) (elim conjE, assumption)
  have p3: "validate_tron_address E a w0 = (Inr True, wa) \<and>
    \<not> cache_contains (now wa) a (cache wa) \<and>
    get_address_info E a wa = (Inr i, wb) \<and>
    cache w2 = cache (snd (get_address_info_endpoint E a w0)) \<and>
    validate_tron_address E' a w2 = (Inr True, w3) \<and> now w3 < now wb + ttl \<longrightarrow>
      resource_calls (snd (get_address_info_endpoint E' a w2)) = resource_calls w2 \<and>
      balance_calls (snd (get_address_info_endpoint E' a w2)) = balance_calls w2 \<and>
      (\<forall>resp. fst (get_address_info_endpoint E' a w2) = Inr resp \<longrightarrow>
         resp = \<lparr>bandwidth = bandwidth i, energy = energy i, balance = balance i,
                 address = a\<rparr>)"
  proof
    assume h: "validate_tron_address E a w0 = (Inr True, wa) \<and>
      \<not> cache_contains (now wa) a (cache wa) \<and>
      get_address_info E a wa = (Inr i, wb) \<and>
      cache w2 = cache (snd (get_address_info_endpoint E a w0)) \<and>
      validate_tron_address E' a w2 = (Inr True, w3) \<and> now w3 < now wb + ttl"
    then have m: "map_of (cache w2) a = Some (i, now wb + ttl)"
      using miss[of E a w0 wa i wb] by (simp add: setitem_lookup)
    from h have v: "validate_tron_address E' a w2 = (Inr True, w3)" and f: "now w3 < now wb + ttl"
      by simp_all
    from hit[OF v m f]
    show "resource_calls (snd (get_address_info_endpoint E' a w2)) = resource_calls w2 \<and>
      balance_calls (snd (get_address_info_endpoint E' a w2)) = balance_calls w2 \<and>
      (\<forall>resp. fst (get_address_info_endpoint E' a w2) = Inr resp \<longrightarrow>
         resp = \<lparr>bandwidth = bandwidth i, energy = energy i, balance = balance i,
                 address = a\<rparr>)"
      by (elim conjE) (intro conjI, assumption+)
  qed
  from p1 p2 p3 show ?thesis by (intro conjI)
qed

theorem cache_hit_avoids_fetch_witness:
  "map_of (cache (snd (get_address_info_endpoint ledger_up ''TX'' world0))) ''TX'' =
     Some (info_up, 300) \<and>
   cache world_between \<noteq> cache (snd (get_address_info_endpoint ledger_up ''TX'' world0)) \<and>
   map_of (cache world_between) ''TX'' = Some (info_up, 300) \<and>
   now (snd (validate_tron_address ledger_up ''TX'' world_between)) < 300 \<and>
   resource_calls (snd (get_address_info_endpoint ledger_up ''TX'' world_between)) =
     resource_calls world_between \<and>
   balance_calls (snd (get_address_info_endpoint ledger_up ''TX'' world_between)) =
     balance_calls world_between \<and>
   fst (get_address_info_endpoint ledger_up ''TX'' world_between) =
     Inr \<lparr>bandwidth = 600, energy = 0, balance = 1 / 4, address = ''TX''\<rparr>"
proof -
  let ?w1 = "snd (get_address_info_endpoint ledger_up ''TX'' world0)"
  let ?wa = "world0\<lparr>account_calls := account_calls world0 + 1\<rparr>"
  let ?wb = "logger INFO (''Successfully retrieved info for address: '' @ ''TX'')
        (?wa\<lparr>account_calls := account_calls ?wa + 1, resource_calls := resource_calls ?wa + 1,
           balance_calls := balance_calls ?wa + 1\<rparr>)"
  have h1: "validate_tron_address ledger_up ''TX'' world0 = (Inr True, ?wa)"
    by (rule validate_first_try[where u = "()"]) (simp add: ledger_up_def)
  have h2: "\<not> cache_contains (now ?wa) ''TX'' (cache ?wa)"
    by (simp add: world0_def cache_contains_def)
  have h3: "get_address_info ledger_up ''TX'' ?wa = (Inr info_up, ?wb)"
    by (rule get_address_info_up)
  note miss = cache_hit_avoids_fetch[where E = ledger_up and a = "''TX''" and ?w0.0 = world0
      and wa = ?wa and i = info_up and wb = ?wb, THEN conjunct1, rule_format]
  have "map_of (cache ?w1) ''TX'' = Some (info_up, now ?wb + ttl)"
    using miss[OF conjI[OF h1 conjI[OF h2 h3]]] by (elim conjE)
  then have a: "map_of (cache ?w1) ''TX'' = Some (info_up, 300)"
    by (simp add: world0_def ttl_def)
  have c: "cache world_between = [(''TX'', info_up, 300), (''TY'', info_up, 300)]"
    using lookups_up[of "[''TY'']" ?w1]
    by (simp add: world_between_def first_lookup_up maxsize_def ttl_def)
  then have b: "cache world_between \<noteq> cache ?w1"
    by (simp add: first_lookup_up)
  have m: "map_of (cache world_between) ''TX'' = Some (info_up, 300)"
    by (simp add: c)
  let ?w3 = "world_between\<lparr>account_calls := account_calls world_between + 1\<rparr>"
  have v: "validate_tron_address ledger_up ''TX'' world_between = (Inr True, ?w3)"
    by (rule validate_first_try[where u = "()"]) (simp add: ledger_up_def)
  have f: "now ?w3 < 300"
    by (simp add: world_between_def)
  note hit = cache_hit_avoids_fetch[where E' = ledger_up and a = "''TX''"
      and ?w2.0 = world_between and ?w3.0 = ?w3 and j = info_up and e = 300,
      THEN conjunct2, THEN conjunct1, rule_format]
  note r = hit[OF conjI[OF v conjI[OF m f]]]
  from r have r1: "resource_calls (snd (get_address_info_endpoint ledger_up ''TX'' world_between)) =
     resource_calls world_between" by (elim conjE)
  from r have r2: "balance_calls (snd (get_address_info_endpoint ledger_up ''TX'' world_between)) =
     balance_calls world_between" by (elim conjE)
  from r have "storable info_up \<and> db_fault ledger_up (db_calls world_between) = None \<and>
       db_fault ledger_up (db_calls world_between + 1) = None \<longrightarrow>
         fst (get_address_info_endpoint ledger_up ''TX'' world_between) =
           Inr \<lparr>bandwidth = bandwidth info_up, energy = energy info_up,
                balance = balance info_up, address = ''TX''\<rparr>" by (elim conjE)
  then have r3: "fst (get_address_info_endpoint ledger_up ''TX'' world_between) =
     Inr \<lparr>bandwidth = 600, energy = 0, balance = 1 / 4, address = ''TX''\<rparr>"
    using storable_up by (simp add: ledger_up_def info_up_def)
  have f': "now (snd (validate_tron_address ledger_up ''TX'' world_between)) < 300"
    using f by (simp add: v)
  from a b m f' r1 r2 r3 show ?thesis by (intro conjI)
qed

subsection \<open>C5: errors and the persisted record\<close>

text \<open>
  C5 as the spec states it fails: with a database whose second round trip (the
  refresh) fails, the lookup returns a 500 and the record is in the table.
\<close>

theorem record_persisted_despite_error:
  "fst (get_address_info_endpoint refresh_fails ''TX'' world0) =
     Inl (HTTPException 500 ''Internal server error: connection lost'') \<and>
   table world0 = [] \<and>
   table (snd (get_address_info_endpoint refresh_fails ''TX'' world0)) =
     [\<lparr>bandwidth = 600, energy = 0, balance = 1 / 4, address = ''TX'', row_id = 1,
       timestamp = 0\<rparr>]"
  by code_simp

text \<open>
  C5, as the code has it. When the lookup responds, a row with the address has been
  appended to the table. When it raises, the table is unchanged, except in one case: the
  lookup reached the commit, the commit succeeded and the refresh that follows it
  failed; then the lookup raises a 500 and the row that was committed stays in the table.
\<close>

theorem record_persisted_unless_refresh_fails:
  "(\<forall>resp. fst (get_address_info_endpoint E a w) = Inr resp \<longrightarrow>
      \<not> commit_then_refresh_fails E a w \<and>
      (\<exists>row. table (snd (get_address_info_endpoint E a w)) = table w @ [row] \<and>
         address row = a \<and> address resp = a \<and> bandwidth row = bandwidth resp \<and>
         energy row = energy resp \<and> balance row = as_float E (balance resp))) \<and>
   (\<forall>e. fst (get_address_info_endpoint E a w) = Inl e \<and> \<not> commit_then_refresh_fails E a w \<longrightarrow>
      table (snd (get_address_info_endpoint E a w)) = table w) \<and>
   (commit_then_refresh_fails E a w \<longrightarrow>
      (\<exists>d. fst (get_address_info_endpoint E a w) = Inl (HTTPException 500 d)) \<and>
      (\<exists>row. table (snd (get_address_info_endpoint E a w)) = table w @ [row] \<and>
         address row = a))"
proof -
  obtain rv w1 where v: "validate_tron_address E a w = (rv, w1)"
    by (cases "validate_tron_address E a w")
  note f = validate_result[OF v]
  show ?thesis
  proof (cases "rv = Inr True")
    case False
    with v f(5) show ?thesis
      by (auto simp: get_address_info_endpoint_def commit_then_refresh_fails_def
            split: sum.splits)
  next
    case True
    with v have e: "get_address_info_endpoint E a w = except_clauses a (try_block E a w1)"
      by (simp add: endpoint_valid)
    obtain rc w2 where c: "cached_or_fetched E a w1 = (rc, w2)"
      by (cases "cached_or_fetched E a w1")
    note s = cached_or_fetched_store[OF c]
    show ?thesis
    proof (cases rc)
      case (Inl x)
      with c have t: "try_block E a w1 = (Inl x, w2)" by (simp add: try_block_def)
      have n: "\<not> commit_then_refresh_fails E a w"
        using v c Inl by (simp add: commit_then_refresh_fails_def)
      from n s f show ?thesis by (auto simp: e t except_clauses_Inr_iff)
    next
      case (Inr i)
      with c have t: "try_block E a w1 = persist_and_respond E a i w2"
        by (simp add: try_block_after)
      have d: "table w2 = table w" using s f by simp
      obtain rp w3 where p: "db_commit E a i w2 = (rp, w3)"
        by (cases "db_commit E a i w2")
      show ?thesis
      proof (cases rp)
        case (Inl x)
        with p have t': "persist_and_respond E a i w2 = (Inl x, w3)"
          by (simp add: persist_and_respond_def)
        have n: "\<not> commit_then_refresh_fails E a w"
          using v True c Inr p Inl by (simp add: commit_then_refresh_fails_def)
        have "table w3 = table w" using db_commit_Inl[of E a i w2 x w3] p Inl d by simp
        with n show ?thesis by (auto simp: e t t' except_clauses_Inr_iff)
      next
        case row: (Inr row)
        with p have pr: "db_commit E a i w2 = (Inr row, w3)" by simp
        note r = db_commit_Inr[OF pr]
        obtain rr w4 where q: "db_refresh E w3 = (rr, w4)"
          by (cases "db_refresh E w3")
        have t4: "table w4 = table w @ [row]"
          using db_refresh_table[of E w3] q r d by simp
        have ctrf: "commit_then_refresh_fails E a w \<longleftrightarrow> isl rr"
          using v True c Inr pr q by (simp add: commit_then_refresh_fails_def)
        show ?thesis
        proof (cases rr)
          case (Inl x)
          with pr q have t': "persist_and_respond E a i w2 = (Inl x, w4)"
            by (simp add: persist_and_respond_def)
          have 1: "\<exists>d. fst (get_address_info_endpoint E a w) = Inl (HTTPException 500 d)"
            using except_clauses_Inl[of "(Inl x, w4)" x a] by (simp add: e t t')
          have 2: "table (snd (get_address_info_endpoint E a w)) = table w @ [row]"
            by (simp add: e t t' t4)
          from 1 2 r ctrf Inl show ?thesis by auto
        next
          case u: (Inr u)
          with pr q have t': "persist_and_respond E a i w2 =
              (Inr \<lparr>bandwidth = bandwidth i, energy = energy i, balance = balance i,
                    address = a\<rparr>, w4)"
            by (simp add: persist_and_respond_def)
          from r ctrf u t4 show ?thesis by (auto simp: e t t')
        qed
      qed
    qed
  qed
qed

theorem record_persisted_unless_refresh_fails_witness:
  "fst (get_address_info_endpoint ledger_up ''TX'' world0) =
     Inr \<lparr>bandwidth = 600, energy = 0, balance = 1 / 4, address = ''TX''\<rparr> \<and>
   (\<exists>row. table (snd (get_address_info_endpoint ledger_up ''TX'' world0)) = table world0 @ [row] \<and>
      address row = ''TX'' \<and> bandwidth row = 600) \<and>
   fst (get_address_info_endpoint ledger_unknown ''TX'' world0) =
     Inl (HTTPException 400 ''Invalid Tron address'') \<and>
   \<not> commit_then_refresh_fails ledger_unknown ''TX'' world0 \<and>
   table (snd (get_address_info_endpoint ledger_unknown ''TX'' world0)) = table world0 \<and>
   commit_then_refresh_fails refresh_fails ''TX'' world0 \<and>
   (\<exists>d. fst (get_address_info_endpoint refresh_fails ''TX'' world0) =
      Inl (HTTPException 500 d)) \<and>
   (\<exists>row. table (snd (get_address_info_endpoint refresh_fails ''TX'' world0)) =
      table world0 @ [row] \<and> address row = ''TX'')"
proof -
  have ok: "fst (get_address_info_endpoint ledger_up ''TX'' world0) =
     Inr \<lparr>bandwidth = 600, energy = 0, balance = 1 / 4, address = ''TX''\<rparr>"
    by (rule first_lookup_up(1))
  have bad: "fst (get_address_info_endpoint ledger_unknown ''TX'' world0) =
     Inl (HTTPException 400 ''Invalid Tron address'')"
    by code_simp
  have n: "\<not> commit_then_refresh_fails ledger_unknown ''TX'' world0"
    by code_simp
  have y: "commit_then_refresh_fails refresh_fails ''TX'' world0"
    by code_simp
  note up = record_persisted_unless_refresh_fails[of ledger_up "''TX''" world0,
      THEN conjunct1, rule_format, OF ok]
  from up have a: "\<exists>row. table (snd (get_address_info_endpoint ledger_up ''TX'' world0)) =
            table world0 @ [row] \<and> address row = ''TX'' \<and> bandwidth row = 600"
    by auto
  note un = record_persisted_unless_refresh_fails[of ledger_unknown "''TX''" world0,
      THEN conjunct2, THEN conjunct1, rule_format, OF conjI[OF bad n]]
  note rf = record_persisted_unless_refresh_fails[of refresh_fails "''TX''" world0,
      THEN conjunct2, THEN conjunct2, rule_format, OF y]
  from rf have c: "\<exists>d. fst (get_address_info_endpoint refresh_fails ''TX'' world0) =
      Inl (HTTPException 500 d)" by (elim conjE)
  from rf have d: "\<exists>row. table (snd (get_address_info_endpoint refresh_fails ''TX'' world0)) =
      table world0 @ [row] \<and> address row = ''TX''" by (elim conjE)
  from ok a bad n un y c d show ?thesis by (intro conjI)
qed

subsection \<open>C6: network errors that leave the lookup\<close>

text \<open>
  C6 fails on the code. When every \<^verbatim>\<open>get_account\<close> call of the validator fails with a
  \<^verbatim>\<open>ConnectionError\<close>, the exception that ends the retries is raised at line 60, outside
  the \<^verbatim>\<open>try\<close>, and leaves the endpoint as it is: no \<^verbatim>\<open>HTTPException\<close> with a detail is
  made. When every resource call of the fetch fails with a \<^verbatim>\<open>ConnectionError\<close>, the
  decorator raises its \<^verbatim>\<open>RetryError\<close>, which the clause for network errors does not
  catch: the detail is \<^verbatim>\<open>Internal server error:\<close> with the text of the \<^verbatim>\<open>RetryError\<close>, and
  the message of the network error is not in it. Only a \<^verbatim>\<open>ConnectionError\<close> raised as
  such inside the \<^verbatim>\<open>try\<close> becomes the 500 with \<^verbatim>\<open>Network error:\<close> and its message.
\<close>

theorem network_error_not_reported:
  "fst (get_address_info_endpoint ledger_down ''TFjnjGvy8GLP63CDkX2eWQBYHRUzvN619g'' world0) =
     Inl (RetryError (ConnectionError ''Network error'')) \<and>
   fst (get_address_info_endpoint fetch_down ''TFjnjGvy8GLP63CDkX2eWQBYHRUzvN619g'' world0) =
     Inl (HTTPException 500
           ''Internal server error: RetryError[<Future state=finished raised ConnectionError>]'') \<and>
   fst (except_clauses a (Inl (ConnectionError m), w)) =
     Inl (HTTPException 500 (''Network error: '' @ m))"
proof -
  have "fst (get_address_info_endpoint ledger_down ''TFjnjGvy8GLP63CDkX2eWQBYHRUzvN619g'' world0) =
     Inl (RetryError (ConnectionError ''Network error''))"
    by code_simp
  moreover have "fst (get_address_info_endpoint fetch_down ''TFjnjGvy8GLP63CDkX2eWQBYHRUzvN619g'' world0) =
     Inl (HTTPException 500
           ''Internal server error: RetryError[<Future state=finished raised ConnectionError>]'')"
    by code_simp
  moreover have "fst (except_clauses a (Inl (ConnectionError m), w)) =
     Inl (HTTPException 500 (''Network error: '' @ m))"
    by (simp add: except_clauses_def)
  ultimately show ?thesis by blast
qed

subsection \<open>C2: the retry policy\<close>




end
